theory Spec2Isabelle
  imports Complex_Main
begin

section \<open>Geometry primitives (include/models/Point.hh)\<close>

text \<open>
  The coordinates of a point are C++ doubles; they are modelled as real numbers.  The
  subtraction inside \<open>operator==\<close>, whose rounding decides the outcome of the comparison
  with epsilon, is rounded as a subtraction of doubles is.  Elsewhere rounding is
  outside the model, as are infinities; the only NaN that is kept is the one
  \<open>vectorialAngle\<close> produces for a zero vector.  The cluster tag is an int.
\<close>

definition cUnclassified :: int where "cUnclassified = -1"
definition cCorePoint :: int where "cCorePoint = -2"
definition cBorderPoint :: int where "cBorderPoint = -3"
definition cNoise :: int where "cNoise = -4"

record Point =
  getX :: real
  getY :: real
  getZ :: real
  getClusterID :: int

type_synonym Vector = Point

text \<open>The constructors \<open>Point()\<close> and \<open>Point(x, y, z, cID = cUnclassified)\<close>.\<close>

definition mkPoint :: "real \<Rightarrow> real \<Rightarrow> real \<Rightarrow> Point" where
  "mkPoint a b c = \<lparr>getX = a, getY = b, getZ = c, getClusterID = cUnclassified\<rparr>"

definition Point0 :: Point where
  "Point0 = mkPoint 0 0 0"

definition setX :: "real \<Rightarrow> Point \<Rightarrow> Point" where "setX a p = p\<lparr>getX := a\<rparr>"
definition setY :: "real \<Rightarrow> Point \<Rightarrow> Point" where "setY a p = p\<lparr>getY := a\<rparr>"
definition setZ :: "real \<Rightarrow> Point \<Rightarrow> Point" where "setZ a p = p\<lparr>getZ := a\<rparr>"
definition setClusterID :: "int \<Rightarrow> Point \<Rightarrow> Point" where
  "setClusterID c p = p\<lparr>getClusterID := c\<rparr>"

definition distance3D :: "Point \<Rightarrow> Point \<Rightarrow> real" where
  "distance3D p q =
     (let dx = getX p - getX q; dy = getY p - getY q; dz = getZ p - getZ q
      in sqrt ((dx * dx) + (dy * dy) + (dz * dz)))"

definition module :: "Vector \<Rightarrow> real" where
  "module v = sqrt ((getX v * getX v) + (getY v * getY v) + (getZ v * getZ v))"

definition scalarProduct :: "Vector \<Rightarrow> Vector \<Rightarrow> real" where
  "scalarProduct u v = (getX u * getX v) + (getY u * getY v) + (getZ u * getZ v)"

text \<open>\<open>vectorialAngle\<close> divides by the product of the two modules.  For a zero vector the
  quotient is \<open>0 / 0\<close>, a NaN in C++, and every comparison with a NaN is false: the angle is
  \<open>None\<close> then, and \<open>angle_le\<close> is the comparison \<open>angle <= bound\<close> of the code.\<close>

definition vectorialAngle :: "Vector \<Rightarrow> Vector \<Rightarrow> real option" where
  "vectorialAngle u v =
     (if module u * module v = 0 then None
      else Some (arccos (scalarProduct u v / (module u * module v))))"

definition angle_le :: "real option \<Rightarrow> real \<Rightarrow> bool" where
  "angle_le a bound = (case a of None \<Rightarrow> False | Some x \<Rightarrow> x \<le> bound)"

text \<open>\<open>operator*(double)\<close>; the opposite vector is \<open>v * (-1)\<close>.\<close>

definition point_times :: "Point \<Rightarrow> real \<Rightarrow> Point" where
  "point_times p d = mkPoint (getX p * d) (getY p * d) (getZ p * d)"

subsection \<open>The difference of two doubles\<close>

text \<open>
  A subtraction of doubles returns the exact difference rounded to the nearest double,
  ties to the even significand (IEEE 754 binary64, the default rounding).  A double is an
  integer multiple of the unit of its binade: for \<open>2\<^sup>e \<le> |x| < 2\<^sup>e\<^sup>+\<^sup>1\<close> with \<open>e \<ge> -1022\<close> the
  unit is \<open>2\<^sup>e\<^sup>-\<^sup>5\<^sup>2\<close> (53 significant bits), and below \<open>2\<^sup>-\<^sup>1\<^sup>0\<^sup>2\<^sup>2\<close> it is \<open>2\<^sup>-\<^sup>1\<^sup>0\<^sup>7\<^sup>4\<close>.  An
  overflow to infinity is not modelled: it needs a magnitude of about \<open>2\<^sup>1\<^sup>0\<^sup>2\<^sup>4\<close>, and a
  comparison \<open><= epsilon\<close> is false for infinity as it is for the rounded real.
\<close>

text \<open>The nearest integer, a tie going to the even one.\<close>

definition round_even :: "real \<Rightarrow> int" where
  "round_even y =
     (let f = \<lfloor>y\<rfloor>
      in if y - of_int f < 1 / 2 then f
         else if 1 / 2 < y - of_int f then f + 1
         else if even f then f else f + 1)"

definition binade :: "real \<Rightarrow> int" where
  "binade x = \<lfloor>log 2 \<bar>x\<bar>\<rfloor>"

definition ulp :: "real \<Rightarrow> real" where
  "ulp x = 2 powr (of_int (max (binade x) (- 1022)) - 52)"

definition round_double :: "real \<Rightarrow> real" where
  "round_double x =
     (if x = 0 then 0 else sgn x * (of_int (round_even (\<bar>x\<bar> / ulp x)) * ulp x))"

text \<open>\<open>x - y\<close> on doubles.\<close>

definition double_minus :: "real \<Rightarrow> real \<Rightarrow> real" where
  "double_minus x y = round_double (x - y)"

text \<open>\<open>std::numeric_limits<double>::epsilon()\<close> of an IEEE 754 double.\<close>

definition epsilon :: real where
  "epsilon = 1 / 2 ^ 52"

text \<open>\<open>operator==\<close>: \<open>std::fabs(x - p.x) <= epsilon\<close> on each axis; \<open>fabs\<close> and the comparison
  are exact.\<close>

definition point_eq :: "Point \<Rightarrow> Point \<Rightarrow> bool" where
  "point_eq p q \<longleftrightarrow>
     \<bar>double_minus (getX p) (getX q)\<bar> \<le> epsilon \<and>
     \<bar>double_minus (getY p) (getY q)\<bar> \<le> epsilon \<and>
     \<bar>double_minus (getZ p) (getZ q)\<bar> \<le> epsilon"

definition point_neq :: "Point \<Rightarrow> Point \<Rightarrow> bool" where
  "point_neq p q \<longleftrightarrow> \<not> point_eq p q"

definition point_minus :: "Point \<Rightarrow> Point \<Rightarrow> Point" where
  "point_minus p q = mkPoint (getX p - getX q) (getY p - getY q) (getZ p - getZ q)"

section \<open>Bounding box (include/models/BBox.hh)\<close>

record BBox =
  getDelta :: Vector
  getMin :: Point
  getMax :: Point

text \<open>One pass of the constructor's loop body over the point \<open>p\<close>.\<close>

definition bbox_step :: "Point \<Rightarrow> Point \<times> Point \<Rightarrow> Point \<times> Point" where
  "bbox_step p mm =
     (let (mn, mx) = mm;
          (mn, mx) = (if getX mn > getX p then (setX (getX p) mn, mx)
                      else if getX mx < getX p then (mn, setX (getX p) mx) else (mn, mx));
          (mn, mx) = (if getY mn > getY p then (setY (getY p) mn, mx)
                      else if getY mx < getY p then (mn, setY (getY p) mx) else (mn, mx));
          (mn, mx) = (if getZ mn > getZ p then (setZ (getZ p) mn, mx)
                      else if getZ mx < getZ p then (mn, setZ (getZ p) mx) else (mn, mx))
      in (mn, mx))"

text \<open>\<open>BBox(const std::vector<Point> &points)\<close>: the members are default-constructed
  (all coordinates zero) and only assigned when the vector is not empty.\<close>

definition BBox_of :: "Point list \<Rightarrow> BBox" where
  "BBox_of points =
     (case points of
        [] \<Rightarrow> \<lparr>getDelta = Point0, getMin = Point0, getMax = Point0\<rparr>
      | p0 # rest \<Rightarrow>
          (let (mn, mx) = fold bbox_step rest (p0, p0)
           in \<lparr>getDelta = point_minus mx mn, getMin = mn, getMax = mx\<rparr>))"


section \<open>LVX file scanner (src/scanner/ScannerLVX.cc)\<close>

text \<open>
  The vendor library behind \<open>lvx_file.h\<close> and \<open>lds.h\<close> is not part of the sources.  Its
  two tables are parameters of the model, and its file handle is the list of frames
  that have not been read yet together with the state the handle reports.

  A frame buffer is a byte array that the scanner reads through casts.  The model keeps
  the byte offsets of the code and replaces the casts by decoding functions:
  \<open>packet_at b off\<close> is the packet found at byte offset \<open>off\<close> of the buffer (in the
  layout of the file's version), and \<open>point_at pk off\<close> is the raw point found at byte
  offset \<open>off\<close> of the packet's data.
\<close>

record LivoxExtendRawPoint =
  raw_x :: int
  raw_y :: int
  raw_z :: int
  raw_reflectivity :: nat

record LivoxEthPacket =
  data_type :: nat
  eth_timestamp :: nat
  point_at :: "nat \<Rightarrow> LivoxExtendRawPoint"

record OutPacketBuffer =
  data_size :: nat
  packet_at :: "nat \<Rightarrow> LivoxEthPacket"

datatype LvxFileState = kLvxFileOk | kLvxFileNotExist | kLvxFileAtEnd

record LvxFileHandle =
  file_exists :: bool
  file_frames :: "OutPacketBuffer list"
  unread_frames :: "OutPacketBuffer list"
  file_state :: LvxFileState

record Vendor =
  GetPointsPerPacket :: "nat \<Rightarrow> nat"
  GetEthPacketLen :: "nat \<Rightarrow> nat"

definition kExtendCartesian :: nat where "kExtendCartesian = 2"

definition sizeof_LivoxExtendRawPoint :: nat where "sizeof_LivoxExtendRawPoint = 14"

definition Open :: "LvxFileHandle \<Rightarrow> LvxFileHandle" where
  "Open f = (if file_exists f then f\<lparr>unread_frames := file_frames f, file_state := kLvxFileOk\<rparr>
             else f\<lparr>file_state := kLvxFileNotExist\<rparr>)"

definition CloseLvxFile :: "LvxFileHandle \<Rightarrow> LvxFileHandle" where
  "CloseLvxFile f = f\<lparr>unread_frames := []\<rparr>"

datatype ScanCode = kScanOk | kScanError | kScanEof

text \<open>A delivered point: timestamp, reflectivity and the three raw coordinates.\<close>

type_synonym LidarPoint = "nat \<times> nat \<times> int \<times> int \<times> int"

text \<open>
  The callback is any function of the program.  It acts on a state \<open>'c\<close> of its own, and
  it may call \<open>pause()\<close> on the scanner while it runs: the boolean it returns says so.
\<close>

record 'c ScannerLVX =
  lvx_file :: LvxFileHandle
  packets_of_frame :: OutPacketBuffer
  frameOffset :: nat
  packetOffset :: nat
  scanning :: bool
  callback :: "('c \<Rightarrow> LidarPoint \<Rightarrow> 'c \<times> bool) option"
  client :: 'c

definition pause :: "'c ScannerLVX \<Rightarrow> 'c ScannerLVX" where
  "pause s = s\<lparr>scanning := False\<rparr>"

definition GetPacketsOfFrame :: "'c ScannerLVX \<Rightarrow> LvxFileState \<times> 'c ScannerLVX" where
  "GetPacketsOfFrame s =
     (case unread_frames (lvx_file s) of
        [] \<Rightarrow> (kLvxFileAtEnd, s\<lparr>lvx_file := (lvx_file s)\<lparr>file_state := kLvxFileAtEnd\<rparr>\<rparr>)
      | fr # rest \<Rightarrow>
          (kLvxFileOk, s\<lparr>lvx_file := (lvx_file s)\<lparr>unread_frames := rest\<rparr>, packets_of_frame := fr\<rparr>))"

definition call_callback :: "LidarPoint \<Rightarrow> 'c ScannerLVX \<Rightarrow> 'c ScannerLVX" where
  "call_callback p s =
     (case callback s of
        None \<Rightarrow> s
      | Some f \<Rightarrow> (let (c, paused) = f (client s) p;
                     s' = s\<lparr>client := c\<rparr>
                 in if paused then pause s' else s'))"

function points_loop :: "nat \<Rightarrow> LivoxEthPacket \<Rightarrow> nat \<Rightarrow> 'c ScannerLVX \<Rightarrow> 'c ScannerLVX" where
  "points_loop points_in_packet eth_packet i s =
     (if i < points_in_packet then
        (let point = point_at eth_packet (packetOffset s);
             s1 = call_callback (eth_timestamp eth_packet, raw_reflectivity point,
                                 raw_x point, raw_y point, raw_z point) s
         in if scanning s1
            then points_loop points_in_packet eth_packet (i + 1)
                   (s1\<lparr>packetOffset := packetOffset s1 + sizeof_LivoxExtendRawPoint\<rparr>)
            else s1)
      else s)"
  by pat_completeness auto
termination
  by (relation "measure (\<lambda>(n, pk, i, s). n - i)") auto

declare points_loop.simps [simp del]

definition packet_body :: "Vendor \<Rightarrow> LivoxEthPacket \<Rightarrow> 'c ScannerLVX \<Rightarrow> 'c ScannerLVX" where
  "packet_body V eth_packet s =
     (if data_type eth_packet = kExtendCartesian
      then points_loop (GetPointsPerPacket V (data_type eth_packet)) eth_packet
             (packetOffset s div sizeof_LivoxExtendRawPoint) s
      else s)"

lemma call_callback_keeps:
  "frameOffset (call_callback p s) = frameOffset s"
  "packets_of_frame (call_callback p s) = packets_of_frame s"
  "lvx_file (call_callback p s) = lvx_file s"
  by (auto simp: call_callback_def pause_def Let_def split: option.splits prod.splits)

lemma points_loop_keeps:
  "frameOffset (points_loop n pk i s) = frameOffset s \<and>
   packets_of_frame (points_loop n pk i s) = packets_of_frame s \<and>
   lvx_file (points_loop n pk i s) = lvx_file s"
proof (induction n pk i s rule: points_loop.induct)
  case (1 n pk i s)
  show ?case
    apply (subst (1 2 3) points_loop.simps)
    using 1 by (auto simp: Let_def call_callback_keeps)
qed

lemma packet_body_keeps:
  "frameOffset (packet_body V pk s) = frameOffset s"
  "packets_of_frame (packet_body V pk s) = packets_of_frame s"
  "lvx_file (packet_body V pk s) = lvx_file s"
  by (simp_all add: packet_body_def points_loop_keeps)

function packets_loop :: "Vendor \<Rightarrow> 'c ScannerLVX \<Rightarrow> 'c ScannerLVX" where
  "packets_loop V s =
     (if frameOffset s < data_size (packets_of_frame s) then
        (let eth_packet = packet_at (packets_of_frame s) (frameOffset s);
             s1 = packet_body V eth_packet s
         in if scanning s1
            then packets_loop V
                   (s1\<lparr>packetOffset := 0,
                       frameOffset := frameOffset s1 + (GetEthPacketLen V (data_type eth_packet) + 1)\<rparr>)
            else s1)
      else s)"
  by pat_completeness auto
termination
  by (relation "measure (\<lambda>(V, s). data_size (packets_of_frame s) - frameOffset s)")
     (auto simp: packet_body_keeps)

declare packets_loop.simps [simp del]

lemma packets_loop_keeps:
  "lvx_file (packets_loop V s) = lvx_file s"
proof (induction V s rule: packets_loop.induct)
  case (1 V s)
  show ?case
    apply (subst packets_loop.simps)
    using 1 by (auto simp: Let_def packet_body_keeps)
qed

function frames_loop :: "Vendor \<Rightarrow> LvxFileState \<Rightarrow> 'c ScannerLVX \<Rightarrow> 'c ScannerLVX" where
  "frames_loop V fileState s =
     (if fileState = kLvxFileOk then
        (let s1 = packets_loop V s
         in if scanning s1
            then (let (fileState', s2) = GetPacketsOfFrame (s1\<lparr>frameOffset := 0\<rparr>)
                  in frames_loop V fileState' s2)
            else s1)
      else s)"
  by pat_completeness auto
termination
  by (relation "measure (\<lambda>(V, st, s). length (unread_frames (lvx_file s)) + (if st = kLvxFileOk then 1 else 0))")
     (auto simp: packets_loop_keeps GetPacketsOfFrame_def split: list.splits)

declare frames_loop.simps [simp del]

definition readData :: "Vendor \<Rightarrow> 'c ScannerLVX \<Rightarrow> ScanCode \<times> 'c ScannerLVX" where
  "readData V s =
     (let (fileState, s1) = (if packetOffset s = 0 \<and> frameOffset s = 0 then GetPacketsOfFrame s
                             else (kLvxFileOk, s));
          s2 = frames_loop V fileState s1
      in if frameOffset s2 = 0 \<and> packetOffset s2 = 0 \<and> file_state (lvx_file s2) = kLvxFileAtEnd
         then (kScanEof, s2\<lparr>scanning := False\<rparr>)
         else (kScanOk, s2))"

definition scan :: "Vendor \<Rightarrow> 'c ScannerLVX \<Rightarrow> ScanCode \<times> 'c ScannerLVX" where
  "scan V s =
     (if \<not> scanning s then
        (let s1 = (if frameOffset s = 0 \<and> packetOffset s = 0 \<and> file_state (lvx_file s) = kLvxFileAtEnd
                   then s\<lparr>lvx_file := Open (CloseLvxFile (lvx_file s))\<rparr> else s)
         in if file_state (lvx_file s1) = kLvxFileOk
            then readData V (s1\<lparr>scanning := True\<rparr>)
            else (kScanError, s1))
      else (kScanError, s))"

text \<open>\<open>init()\<close> on a handle: opens the file and clears both offsets.\<close>

definition init :: "'c ScannerLVX \<Rightarrow> bool \<times> 'c ScannerLVX" where
  "init s =
     (let f = Open (lvx_file s)
      in if file_state f \<noteq> kLvxFileOk then (False, s\<lparr>lvx_file := f\<rparr>)
         else (True, s\<lparr>lvx_file := f, frameOffset := 0, packetOffset := 0\<rparr>))"


subsection \<open>A file of two points\<close>

text \<open>
  A capture with a single frame holding a single packet of two points, read with tables
  that give two points per packet, and a client that records every point it receives
  and calls \<open>pause()\<close> while it handles the second one.
\<close>

definition two_points_packet :: LivoxEthPacket where
  "two_points_packet =
     \<lparr>data_type = kExtendCartesian, eth_timestamp = 7,
      point_at = (\<lambda>off. \<lparr>raw_x = int (off div sizeof_LivoxExtendRawPoint), raw_y = 0, raw_z = 0,
                           raw_reflectivity = 100\<rparr>)\<rparr>"

definition one_packet_frame :: OutPacketBuffer where
  "one_packet_frame = \<lparr>data_size = 30, packet_at = (\<lambda>off. two_points_packet)\<rparr>"

definition small_tables :: Vendor where
  "small_tables = \<lparr>GetPointsPerPacket = (\<lambda>t. 2), GetEthPacketLen = (\<lambda>t. 29)\<rparr>"

definition recording_client :: "LidarPoint list \<Rightarrow> LidarPoint \<Rightarrow> LidarPoint list \<times> bool" where
  "recording_client received p = (received @ [p], length received = 1)"

definition opened_scanner :: "LidarPoint list ScannerLVX" where
  "opened_scanner =
     \<lparr>lvx_file = \<lparr>file_exists = True, file_frames = [one_packet_frame],
                   unread_frames = [one_packet_frame], file_state = kLvxFileOk\<rparr>,
      packets_of_frame = \<lparr>data_size = 0, packet_at = (\<lambda>off. two_points_packet)\<rparr>,
      frameOffset = 0, packetOffset = 0, scanning = False,
      callback = Some recording_client, client = []\<rparr>"

section \<open>Spatial index (models/Octree.hh and models/Kernel.hh, not part of the sources)\<close>

text \<open>
  The clustering code uses the octree through its constructor and through
  \<open>searchNeighbors\<close> only.  The source of the octree is absent; every definition of this
  section is written from the sentences of the specification:

  \<^item> each node owns an axis-aligned cube (a centre and a half-extent);
  \<^item> leaves store pointers into the externally owned point array (here: indices), internal
    nodes have exactly eight children, indexed by the sign of \<open>p - center\<close> on each axis;
  \<^item> a node subdivides when its occupancy exceeds a configured threshold and its extent
    remains above a minimum resolution, otherwise it stays a leaf;
  \<^item> a query descends recursively, prunes the children whose cube does not intersect the
    axis-aligned envelope of the kernel, and tests each stored point of a leaf against the
    exact kernel;
  \<^item> empty input yields an empty tree, and a query on it returns nothing.
\<close>

text \<open>Modelled from the spec: the minimum resolution \<open>MIN_NODE_HALF_EXTENT\<close> of the missing
  octree.  It is a length, hence positive: with a minimum of zero or less the subdivision
  of coinciding points would never stop.\<close>

typedef posreal = "{r :: real. 0 < r}"
  by (rule exI [of _ 1]) simp

text \<open>Modelled from the spec: the kernels of a query of the missing octree (the cylinder,
  whose semantics the spec leaves open, is not used by the clustering code).\<close>

datatype Kernel_t = sphere | cube

text \<open>Modelled from the spec: the two configuration constants of the missing octree.\<close>

record Octree_config =
  MAX_POINTS_PER_LEAF :: nat
  MIN_NODE_HALF_EXTENT :: posreal

text \<open>Modelled from the spec: a node of the missing octree, with its centre and its
  half-extent; a leaf holds indices into the point array, an internal node its children.\<close>

datatype Octree = Leaf Point real "nat list" | Node Point real "Octree list"

fun center_of :: "Octree \<Rightarrow> Point" where
  "center_of (Leaf c h idxs) = c"
| "center_of (Node c h children) = c"

fun half_extent_of :: "Octree \<Rightarrow> real" where
  "half_extent_of (Leaf c h idxs) = h"
| "half_extent_of (Node c h children) = h"

text \<open>Modelled from the spec: the child of a point, from the sign of \<open>p - center\<close> on each
  axis (bit 0 for x, bit 1 for y, bit 2 for z; a non-negative difference sets the bit).\<close>

definition octant :: "Point \<Rightarrow> Point \<Rightarrow> nat" where
  "octant c p =
     (if getX p - getX c < 0 then 0 else 1) + (if getY p - getY c < 0 then 0 else 2) +
     (if getZ p - getZ c < 0 then 0 else 4)"

text \<open>Modelled from the spec: the cube of child \<open>k\<close> is the octant of the parent's cube on the
  sides given by the bits of \<open>k\<close>.\<close>

definition child_center :: "Point \<Rightarrow> real \<Rightarrow> nat \<Rightarrow> Point" where
  "child_center c h k =
     mkPoint (getX c + (if odd k then h / 2 else - (h / 2)))
             (getY c + (if odd (k div 2) then h / 2 else - (h / 2)))
             (getZ c + (if odd (k div 4) then h / 2 else - (h / 2)))"

lemma halving_measure:
  fixes h m :: real
  assumes "0 < m" "m < h"
  shows "\<lceil>h / (2 * m)\<rceil> < \<lceil>h / m\<rceil>"
proof -
  have x: "1 < h / m" using assms by simp
  then have c2: "2 \<le> \<lceil>h / m\<rceil>" by linarith
  have "h / (2 * m) = (h / m) / 2" by simp
  also have "\<dots> \<le> real_of_int \<lceil>h / m\<rceil> / 2" by (simp add: divide_right_mono)
  also have "\<dots> \<le> real_of_int (\<lceil>h / m\<rceil> - 1)" using c2 by simp
  finally have "\<lceil>h / (2 * m)\<rceil> \<le> \<lceil>h / m\<rceil> - 1" by (rule ceiling_le)
  then show ?thesis by linarith
qed

text \<open>Modelled from the spec: construction of the node that owns the cube \<open>(c, h)\<close> and the
  points \<open>idxs\<close> of the array \<open>pts\<close>.\<close>

function build_node :: "Octree_config \<Rightarrow> Point list \<Rightarrow> Point \<Rightarrow> real \<Rightarrow> nat list \<Rightarrow> Octree" where
  "build_node cfg pts c h idxs =
     (if MAX_POINTS_PER_LEAF cfg < length idxs \<and> Rep_posreal (MIN_NODE_HALF_EXTENT cfg) < h
      then Node c h
             (map (\<lambda>k. build_node cfg pts (child_center c h k) (h / 2)
                          (filter (\<lambda>i. octant c (pts ! i) = k) idxs))
                  [0..<8])
      else Leaf c h idxs)"
  by pat_completeness auto
termination
proof (relation "measure (\<lambda>(cfg, pts, c, h, idxs). nat \<lceil>h / Rep_posreal (MIN_NODE_HALF_EXTENT cfg)\<rceil>)",
    goal_cases)
  case 1
  show ?case by simp
next
  case (2 cfg idxs h pts c k)
  have "0 < Rep_posreal (MIN_NODE_HALF_EXTENT cfg)"
    using Rep_posreal [of "MIN_NODE_HALF_EXTENT cfg"] by simp
  with 2 show ?case by (simp add: halving_measure)
qed

declare build_node.simps [simp del]

text \<open>Modelled from the spec: the constructor \<open>Octree(points)\<close>.  The spec does not say how
  the root cube is chosen; here it is the smallest cube centred on the bounding box of
  the points.\<close>

definition Octree_of :: "Octree_config \<Rightarrow> Point list \<Rightarrow> Octree" where
  "Octree_of cfg pts =
     (if pts = [] then Leaf Point0 0 []
      else (let b = BBox_of pts;
                c = mkPoint ((getX (getMin b) + getX (getMax b)) / 2)
                            ((getY (getMin b) + getY (getMax b)) / 2)
                            ((getZ (getMin b) + getZ (getMax b)) / 2);
                h = max (max (getX (getDelta b)) (getY (getDelta b))) (getZ (getDelta b)) / 2
            in build_node cfg pts c h [0..<length pts]))"

text \<open>Modelled from the spec: the kernel tests of the missing octree,
  \<open>Sphere: ||p - center|| \<le> radius\<close> and \<open>Cube: each coordinate within radius\<close>.\<close>

fun inside_kernel :: "Kernel_t \<Rightarrow> Point \<Rightarrow> real \<Rightarrow> Point \<Rightarrow> bool" where
  "inside_kernel sphere center radius p \<longleftrightarrow> distance3D p center \<le> radius"
| "inside_kernel cube center radius p \<longleftrightarrow>
     \<bar>getX p - getX center\<bar> \<le> radius \<and> \<bar>getY p - getY center\<bar> \<le> radius \<and>
     \<bar>getZ p - getZ center\<bar> \<le> radius"

text \<open>Modelled from the spec: does the cube \<open>(nc, nh)\<close> of a node intersect the axis-aligned
  envelope of the kernel, the cube \<open>(center, radius)\<close>?\<close>

definition intersects_envelope :: "Point \<Rightarrow> real \<Rightarrow> Point \<Rightarrow> real \<Rightarrow> bool" where
  "intersects_envelope nc nh center radius \<longleftrightarrow>
     \<bar>getX nc - getX center\<bar> \<le> nh + radius \<and> \<bar>getY nc - getY center\<bar> \<le> nh + radius \<and>
     \<bar>getZ nc - getZ center\<bar> \<le> nh + radius"

text \<open>Modelled from the spec: the recursive descent of a query.\<close>

fun search :: "Point list \<Rightarrow> Kernel_t \<Rightarrow> Point \<Rightarrow> real \<Rightarrow> Octree \<Rightarrow> nat list" where
  "search pts k center radius (Leaf nc nh idxs) =
     filter (\<lambda>i. inside_kernel k center radius (pts ! i)) idxs"
| "search pts k center radius (Node nc nh children) =
     concat (map (\<lambda>t. if intersects_envelope (center_of t) (half_extent_of t) center radius
                       then search pts k center radius t else [])
                 children)"

text \<open>Modelled from the spec: \<open>searchNeighbors(center, radius, kernel)\<close> on the octree \<open>t\<close>
  that indexes the array \<open>pts\<close>.  A returned pointer is the index of its point.\<close>

definition searchNeighbors :: "Point list \<Rightarrow> Octree \<Rightarrow> Point \<Rightarrow> real \<Rightarrow> Kernel_t \<Rightarrow> nat list" where
  "searchNeighbors pts t center radius k = search pts k center radius t"

text \<open>The ground truth of the spec: a linear scan over the array.\<close>

definition linear_scan :: "Point list \<Rightarrow> Point \<Rightarrow> real \<Rightarrow> nat list" where
  "linear_scan pts center radius =
     filter (\<lambda>i. distance3D (pts ! i) center \<le> radius) [0..<length pts]"

subsection \<open>What an octree holds\<close>

text \<open>All indices stored below a node, in the order of the leaves.\<close>

fun indices :: "Octree \<Rightarrow> nat list" where
  "indices (Leaf c h idxs) = idxs"
| "indices (Node c h children) = concat (map indices children)"

definition in_cube :: "Point \<Rightarrow> real \<Rightarrow> Point \<Rightarrow> bool" where
  "in_cube c h p \<longleftrightarrow>
     \<bar>getX p - getX c\<bar> \<le> h \<and> \<bar>getY p - getY c\<bar> \<le> h \<and> \<bar>getZ p - getZ c\<bar> \<le> h"

text \<open>The node invariant: every point stored below a node lies in the cube of that node.\<close>

fun octree_inv :: "Point list \<Rightarrow> Octree \<Rightarrow> bool" where
  "octree_inv pts (Leaf c h idxs) \<longleftrightarrow> (\<forall>i \<in> set idxs. in_cube c h (pts ! i))"
| "octree_inv pts (Node c h children) \<longleftrightarrow>
     (\<forall>t \<in> set children. octree_inv pts t \<and>
        (\<forall>i \<in> set (indices t). in_cube (center_of t) (half_extent_of t) (pts ! i)))"

section \<open>Spatial DBSCAN (src/object_characterization/DBScan.cc)\<close>

text \<open>
  The constants of \<open>app/config.h\<close>, which is not part of the sources, are parameters.
  A \<open>Point *\<close> returned by the octree is the index of its point in the vector, which is
  what the code recovers by pointer subtraction.  The cluster id that \<open>clusters\<close> and
  \<open>normals\<close> hand to the expansion starts at 0 and is only incremented: it is a \<open>nat\<close>.

  An octree whose pointers do not all point into the vector, an index outside a vector and
  \<open>erase\<close> on an empty vector are undefined behaviour in C++; the model returns \<open>None\<close>
  there.
\<close>

record DBScan_config = Octree_config +
  CLUSTER_POINT_PROXIMITY :: real
  MIN_CLUSTER_POINTS :: nat
  FACE_POINT_PROXIMITY :: real
  MIN_FACE_POINTS :: nat
  NORMAL_CALC_POINT_PROXIMITY :: real
  MAX_NORMAL_VECT_ANGLE :: real
  MAX_MEAN_VECT_ANGLE :: real
  MAX_MEAN_VECT_ANGLE_SINGLE :: real

definition octree_config :: "DBScan_config \<Rightarrow> Octree_config" where
  "octree_config cfg =
     \<lparr>MAX_POINTS_PER_LEAF = MAX_POINTS_PER_LEAF cfg, MIN_NODE_HALF_EXTENT = MIN_NODE_HALF_EXTENT cfg\<rparr>"

definition points_into :: "Point list \<Rightarrow> Octree \<Rightarrow> bool" where
  "points_into points octree \<longleftrightarrow> list_all (\<lambda>np. np < length points) (indices octree)"

definition centroidNeighbours ::
  "DBScan_config \<Rightarrow> Point \<Rightarrow> Point list \<Rightarrow> Octree \<Rightarrow> (nat \<times> nat list) option" where
  "centroidNeighbours cfg centroid points octree =
     (if points_into points octree then
        (let neighbourPoints = searchNeighbors points octree centroid (CLUSTER_POINT_PROXIMITY cfg) sphere;
             clusterIndex = filter (\<lambda>np. getClusterID (points ! np) < 0) neighbourPoints
         in Some (length neighbourPoints, clusterIndex))
      else None)"

text \<open>Lines 52 to 59: every seed receives the cluster id, and \<open>indexCorePoint\<close> ends as the
  position of the last seed whose coordinates equal those of the centroid (0 if none).
  The centroid is a reference to element \<open>centroid\<close> of the vector.\<close>

fun mark_seeds :: "int \<Rightarrow> nat \<Rightarrow> nat list \<Rightarrow> nat \<Rightarrow> nat \<Rightarrow> Point list \<Rightarrow> Point list \<times> nat" where
  "mark_seeds clusterID centroid [] index indexCorePoint points = (points, indexCorePoint)"
| "mark_seeds clusterID centroid (i # rest) index indexCorePoint points =
     (let points' = points[i := setClusterID clusterID (points ! i)]
      in mark_seeds clusterID centroid rest (index + 1)
           (if point_eq (points' ! i) (points' ! centroid) then index else indexCorePoint) points')"

text \<open>\<open>v.erase(v.begin() + k)\<close>.\<close>

definition erase :: "nat \<Rightarrow> 'a list \<Rightarrow> 'a list" where
  "erase k v = take k v @ drop (k + 1) v"

text \<open>Lines 68 to 76, the body run for the neighbours of a core seed.  The state is the
  vector of points, the work list \<open>clusterSeeds.second\<close> and \<open>clusterPoints\<close>.\<close>

fun absorb ::
  "int \<Rightarrow> nat list \<Rightarrow> Point list \<times> nat list \<times> nat list \<Rightarrow> Point list \<times> nat list \<times> nat list" where
  "absorb clusterID [] st = st"
| "absorb clusterID (i # rest) (points, seeds, clusterPoints) =
     absorb clusterID rest
       (points[i := setClusterID clusterID (points ! i)],
        (if getClusterID (points ! i) = cUnclassified then seeds @ [i] else seeds),
        clusterPoints @ [i])"

definition unclassified :: "Point list \<Rightarrow> nat" where
  "unclassified points = length (filter (\<lambda>p. getClusterID p = cUnclassified) points)"

lemma unclassified_update:
  assumes "i < length points" "c \<noteq> cUnclassified"
  shows "unclassified (points[i := setClusterID c (points ! i)]) +
           (if getClusterID (points ! i) = cUnclassified then 1 else 0) = unclassified points"
  using assms
proof (induction points arbitrary: i)
  case Nil
  then show ?case by simp
next
  case (Cons p ps)
  show ?case
  proof (cases i)
    case 0
    then show ?thesis using Cons.prems by (simp add: unclassified_def setClusterID_def)
  next
    case (Suc j)
    then have "j < length ps" using Cons.prems by simp
    from Cons.IH[OF this Cons.prems(2)] Suc show ?thesis
      by (simp add: unclassified_def)
  qed
qed

lemma absorb_measure:
  assumes "\<forall>i \<in> set js. i < length points" "c \<noteq> cUnclassified"
    "absorb c js (points, seeds, cps) = (points', seeds', cps')"
  shows "unclassified points' + length seeds' = unclassified points + length seeds \<and>
         length points' = length points \<and> length seeds \<le> length seeds'"
  using assms
proof (induction js arbitrary: points seeds cps)
  case Nil
  then show ?case by simp
next
  case (Cons j js)
  let ?p = "points[j := setClusterID c (points ! j)]"
  let ?s = "if getClusterID (points ! j) = cUnclassified then seeds @ [j] else seeds"
  have r: "\<forall>i \<in> set js. i < length ?p" using Cons.prems(1) by simp
  have a: "absorb c js (?p, ?s, cps @ [j]) = (points', seeds', cps')"
    using Cons.prems(3) by simp
  from Cons.IH[OF r Cons.prems(2) a]
  have "unclassified points' + length seeds' = unclassified ?p + length ?s"
    "length points' = length points" "length ?s \<le> length seeds'" by simp_all
  moreover have "unclassified ?p + (if getClusterID (points ! j) = cUnclassified then 1 else 0)
                 = unclassified points"
    using unclassified_update[of j points c] Cons.prems(1,2) by simp
  ultimately show ?case by (simp split: if_splits)
qed

lemma search_subset: "set (search pts k center radius t) \<subseteq> set (indices t)"
  by (induction t) auto

lemma centroidNeighbours_range:
  assumes "centroidNeighbours cfg centroid points octree = Some cn"
  shows "\<forall>i \<in> set (snd cn). i < length points"
proof -
  from assms have p: "points_into points octree"
    and s: "set (snd cn) \<subseteq> set (searchNeighbors points octree centroid (CLUSTER_POINT_PROXIMITY cfg) sphere)"
    by (auto simp: centroidNeighbours_def Let_def split: if_splits)
  from s search_subset have "set (snd cn) \<subseteq> set (indices octree)"
    unfolding searchNeighbors_def by blast
  with p show ?thesis by (auto simp: points_into_def list_all_iff)
qed

lemma expand_seeds_decreases:
  assumes "i < length seeds"
    "centroidNeighbours cfg centroid points octree = Some cn"
  shows "((cfg, octree, clusterID, i + 1, absorb (int clusterID) (snd cn) (points, seeds, cps)),
          (cfg, octree, clusterID, i, (points, seeds, cps)))
         \<in> measure (\<lambda>(cfg, octree, clusterID, i, (points, seeds, clusterPoints)).
                      unclassified points + (length seeds - i))"
proof -
  obtain points' seeds' cps' where
    a: "absorb (int clusterID) (snd cn) (points, seeds, cps) = (points', seeds', cps')"
    by (cases "absorb (int clusterID) (snd cn) (points, seeds, cps)")
  have "int clusterID \<noteq> cUnclassified" by (simp add: cUnclassified_def)
  from absorb_measure[OF centroidNeighbours_range[OF assms(2)] this a] assms(1)
  show ?thesis by (simp add: a)
qed

text \<open>Lines 63 to 78.  The loop bound \<open>seedsSize\<close> is incremented with every \<open>push_back\<close> on
  the work list, so it is the length of the work list throughout.\<close>

function expand_seeds ::
  "DBScan_config \<Rightarrow> Octree \<Rightarrow> nat \<Rightarrow> nat \<Rightarrow> Point list \<times> nat list \<times> nat list \<Rightarrow>
   (Point list \<times> nat list) option" where
  "expand_seeds cfg octree clusterID i (points, seeds, clusterPoints) =
     (if i < length seeds then
        (if seeds ! i < length points then
           (case centroidNeighbours cfg (points ! (seeds ! i)) points octree of
              None \<Rightarrow> None
            | Some clusterNeighbours \<Rightarrow>
                if MIN_CLUSTER_POINTS cfg \<le> fst clusterNeighbours
                then expand_seeds cfg octree clusterID (i + 1)
                       (absorb (int clusterID) (snd clusterNeighbours) (points, seeds, clusterPoints))
                else expand_seeds cfg octree clusterID (i + 1) (points, seeds, clusterPoints))
         else None)
      else Some (points, clusterPoints))"
  by pat_completeness auto
termination
proof (relation "measure (\<lambda>(cfg, octree, clusterID, i, (points, seeds, clusterPoints)).
                    unclassified points + (length seeds - i))", goal_cases)
  case 1
  show ?case by simp
next
  case 2
  from 2(1,3) show ?case by (rule expand_seeds_decreases)
next
  case 3
  then show ?case by simp
qed

declare expand_seeds.simps [simp del]

definition expandCluster ::
  "DBScan_config \<Rightarrow> nat \<Rightarrow> nat \<Rightarrow> Point list \<Rightarrow> Octree \<Rightarrow> ((bool \<times> nat list) \<times> Point list) option" where
  "expandCluster cfg centroid clusterID points octree =
     (case centroidNeighbours cfg (points ! centroid) points octree of
        None \<Rightarrow> None
      | Some clusterSeeds \<Rightarrow>
          if length (snd clusterSeeds) < MIN_CLUSTER_POINTS cfg
          then Some ((False, []), points[centroid := setClusterID cNoise (points ! centroid)])
          else
            (let clusterPoints = snd clusterSeeds;
                 (points1, indexCorePoint) =
                    mark_seeds (int clusterID) centroid (snd clusterSeeds) 0 0 points
             in if indexCorePoint < length (snd clusterSeeds)
                then (case expand_seeds cfg octree clusterID 0
                             (points1, erase indexCorePoint (snd clusterSeeds), clusterPoints) of
                        None \<Rightarrow> None
                      | Some (points2, clusterPoints2) \<Rightarrow> Some ((True, clusterPoints2), points2))
                else None))"

text \<open>The loop of \<open>clusters\<close> over the elements of the vector, here over their indices.\<close>

fun clusters_loop ::
  "DBScan_config \<Rightarrow> Octree \<Rightarrow> nat list \<Rightarrow> nat \<Rightarrow> Point list \<Rightarrow> nat list list \<Rightarrow>
   (nat list list \<times> Point list) option" where
  "clusters_loop cfg octree [] clusterID points found = Some (found, points)"
| "clusters_loop cfg octree (p # rest) clusterID points found =
     (if getClusterID (points ! p) = cUnclassified then
        (case expandCluster cfg p clusterID points octree of
           None \<Rightarrow> None
         | Some (expansion, points') \<Rightarrow>
             if fst expansion
             then clusters_loop cfg octree rest (clusterID + 1) points' (found @ [snd expansion])
             else clusters_loop cfg octree rest clusterID points' found)
      else clusters_loop cfg octree rest clusterID points found)"

text \<open>\<open>DBScan::clusters\<close>: the clusters found, and the vector with its cluster ids as the call
  leaves it.\<close>

definition clusters :: "DBScan_config \<Rightarrow> Point list \<Rightarrow> (nat list list \<times> Point list) option" where
  "clusters cfg points =
     clusters_loop cfg (Octree_of (octree_config cfg) points) [0..<length points] 0 points []"

subsection \<open>Notions used to state the properties of the clustering\<close>

text \<open>The octree indexes the vector: it satisfies the node invariant for the coordinates in
  the vector and stores every index of the vector exactly once.\<close>

definition indexes :: "Point list \<Rightarrow> Octree \<Rightarrow> bool" where
  "indexes points octree \<longleftrightarrow>
     octree_inv points octree \<and> distinct (indices octree) \<and>
     set (indices octree) = {..<length points}"

definition same_coords :: "Point \<Rightarrow> Point \<Rightarrow> bool" where
  "same_coords p q \<longleftrightarrow> getX p = getX q \<and> getY p = getY q \<and> getZ p = getZ q"

text \<open>The vector \<open>points\<close> after the points at the indices \<open>S\<close> received the cluster id \<open>c\<close>.\<close>

definition retagged :: "int \<Rightarrow> nat set \<Rightarrow> Point list \<Rightarrow> Point list \<Rightarrow> bool" where
  "retagged c S points points' \<longleftrightarrow>
     length points' = length points \<and>
     (\<forall>i < length points. points' ! i = (if i \<in> S then setClusterID c (points ! i) else points ! i))"

definition neighbours :: "real \<Rightarrow> Point list \<Rightarrow> Octree \<Rightarrow> Point \<Rightarrow> nat list" where
  "neighbours r points octree centroid =
     filter (\<lambda>i. distance3D (points ! i) centroid \<le> r) (indices octree)"

text \<open>The state of \<open>clusters\<close> between two iterations: the clusters found so far are
  disjoint and free of duplicates, cluster \<open>k\<close> holds exactly the points tagged \<open>k\<close>, and
  every other point is unclassified or noise.\<close>

definition clustered :: "Point list \<Rightarrow> nat list list \<Rightarrow> bool" where
  "clustered points found \<longleftrightarrow>
     distinct (concat found) \<and>
     (\<forall>k < length found. \<forall>i \<in> set (found ! k). i < length points \<and> getClusterID (points ! i) = int k) \<and>
     (\<forall>i < length points.
        getClusterID (points ! i) = cUnclassified \<or> getClusterID (points ! i) = cNoise \<or>
        (\<exists>k < length found. getClusterID (points ! i) = int k \<and> i \<in> set (found ! k)))"

subsection \<open>Seven points on a line\<close>

text \<open>Seven points on the x axis, clustered with radius 1 and a minimum of 4 points.\<close>

definition line_config :: DBScan_config where
  "line_config =
     \<lparr>MAX_POINTS_PER_LEAF = 100, MIN_NODE_HALF_EXTENT = Abs_posreal 1,
      CLUSTER_POINT_PROXIMITY = 1, MIN_CLUSTER_POINTS = 4,
      FACE_POINT_PROXIMITY = 1, MIN_FACE_POINTS = 4, NORMAL_CALC_POINT_PROXIMITY = 1,
      MAX_NORMAL_VECT_ANGLE = 0, MAX_MEAN_VECT_ANGLE = 0, MAX_MEAN_VECT_ANGLE_SINGLE = 0\<rparr>"

definition line_points :: "Point list" where
  "line_points =
     [mkPoint 0 0 0, mkPoint (- 1 / 2) 0 0, mkPoint (- 3 / 5) 0 0, mkPoint 1 0 0,
      mkPoint (19 / 10) 0 0, mkPoint (5 / 2) 0 0, mkPoint (14 / 5) 0 0]"

section \<open>Normal-coherent DBSCAN (src/object_characterization/DBScan.cc)\<close>

text \<open>Modelled from the spec: \<open>Geometry::mean\<close> (\<open>models/Geometry.hh\<close> is not part of the
  sources), "the arithmetic mean of a collection, re-normalized to unit length; zero input
  produces the zero vector".\<close>

definition mean :: "Vector list \<Rightarrow> Vector" where
  "mean vs =
     (let n = real (length vs);
          m = mkPoint (sum_list (map getX vs) / n) (sum_list (map getY vs) / n)
                      (sum_list (map getZ vs) / n)
      in if module m = 0 then Point0
         else mkPoint (getX m / module m) (getY m / module m) (getZ m / module m))"

text \<open>The test of lines 186 to 190 on the normal \<open>n\<close> of a neighbour, for the normal
  \<open>n_centroid\<close> of the point whose neighbourhood is searched and the mean normal.\<close>

definition normal_accepts :: "DBScan_config \<Rightarrow> Vector \<Rightarrow> Vector \<Rightarrow> Vector \<Rightarrow> bool" where
  "normal_accepts cfg n_centroid meanNormal n \<longleftrightarrow>
     point_neq n Point0 \<and>
     ((angle_le (vectorialAngle n_centroid n) (MAX_NORMAL_VECT_ANGLE cfg) \<and>
       angle_le (vectorialAngle meanNormal n) (MAX_MEAN_VECT_ANGLE cfg)) \<or>
      angle_le (vectorialAngle meanNormal n) (MAX_MEAN_VECT_ANGLE_SINGLE cfg))"

text \<open>\<open>centroidNormalNeighbours\<close>.  It reads \<open>points[centroid]\<close>, \<open>normals[i]\<close> for every
  neighbour \<open>i\<close> and, once a neighbour has a non-zero normal, \<open>normals[centroid]\<close>.\<close>

definition centroidNormalNeighbours ::
  "DBScan_config \<Rightarrow> nat \<Rightarrow> Vector \<Rightarrow> Point list \<Rightarrow> Vector list \<Rightarrow> Octree \<Rightarrow>
   (nat \<times> nat list) option" where
  "centroidNormalNeighbours cfg centroid meanNormal points normals octree =
     (if centroid < length points \<and> points_into points octree then
        (let neighbourPoints =
               searchNeighbors points octree (points ! centroid) (FACE_POINT_PROXIMITY cfg) sphere
         in if list_all (\<lambda>i. i < length normals) neighbourPoints \<and>
               (if list_ex (\<lambda>i. point_neq (normals ! i) Point0) neighbourPoints
                then centroid < length normals else True)
            then (let accepted = filter (\<lambda>i. normal_accepts cfg (normals ! centroid) meanNormal
                                               (normals ! i)) neighbourPoints;
                      clusterIndex = filter (\<lambda>i. getClusterID (points ! i) < 0) accepted
                  in Some (length accepted, clusterIndex))
            else None)
      else None)"

text \<open>Lines 156 to 165: the body of lines 68 to 76, and the normal of every absorbed point is
  appended to \<open>clusterNormals\<close>.\<close>

fun absorb_normals ::
  "int \<Rightarrow> Vector list \<Rightarrow> nat list \<Rightarrow> Point list \<times> nat list \<times> nat list \<times> Vector list \<Rightarrow>
   Point list \<times> nat list \<times> nat list \<times> Vector list" where
  "absorb_normals clusterID normals [] st = st"
| "absorb_normals clusterID normals (i # rest) (points, seeds, clusterPoints, clusterNormals) =
     absorb_normals clusterID normals rest
       (points[i := setClusterID clusterID (points ! i)],
        (if getClusterID (points ! i) = cUnclassified then seeds @ [i] else seeds),
        clusterPoints @ [i],
        clusterNormals @ [normals ! i])"

lemma absorb_normals_absorb:
  "absorb_normals c normals js (points, seeds, cps, cns) =
     (case absorb c js (points, seeds, cps) of
        (points', seeds', cps') \<Rightarrow> (points', seeds', cps', cns @ map (\<lambda>i. normals ! i) js))"
  by (induction js arbitrary: points seeds cps cns) simp_all

lemma centroidNormalNeighbours_range:
  assumes "centroidNormalNeighbours cfg centroid meanNormal points normals octree = Some cn"
  shows "\<forall>i \<in> set (snd cn). i < length points"
proof -
  from assms have p: "points_into points octree"
    and s: "set (snd cn) \<subseteq>
              set (searchNeighbors points octree (points ! centroid) (FACE_POINT_PROXIMITY cfg) sphere)"
    by (auto simp: centroidNormalNeighbours_def Let_def split: if_splits)
  from s search_subset have "set (snd cn) \<subseteq> set (indices octree)"
    unfolding searchNeighbors_def by blast
  with p show ?thesis by (auto simp: points_into_def list_all_iff)
qed

lemma expand_normal_seeds_decreases:
  assumes "i < length seeds"
    "centroidNormalNeighbours cfg centroid meanNormal points normals octree = Some cn"
  shows "((cfg, octree, normals, clusterID, i + 1,
           absorb_normals (int clusterID) normals (snd cn) (points, seeds, cps, cns)),
          (cfg, octree, normals, clusterID, i, (points, seeds, cps, cns)))
         \<in> measure (\<lambda>(cfg, octree, normals, clusterID, i, (points, seeds, cps, cns)).
                      unclassified points + (length seeds - i))"
proof -
  obtain points' seeds' cps' where
    a: "absorb (int clusterID) (snd cn) (points, seeds, cps) = (points', seeds', cps')"
    by (cases "absorb (int clusterID) (snd cn) (points, seeds, cps)")
  have "int clusterID \<noteq> cUnclassified" by (simp add: cUnclassified_def)
  from absorb_measure[OF centroidNormalNeighbours_range[OF assms(2)] this a] assms(1)
  show ?thesis by (simp add: absorb_normals_absorb a)
qed

text \<open>Lines 150 to 167.  As in the spatial variant, \<open>seedsSize\<close> is the length of the work
  list.\<close>

function expand_normal_seeds ::
  "DBScan_config \<Rightarrow> Octree \<Rightarrow> Vector list \<Rightarrow> nat \<Rightarrow> nat \<Rightarrow>
   Point list \<times> nat list \<times> nat list \<times> Vector list \<Rightarrow> (Point list \<times> nat list) option" where
  "expand_normal_seeds cfg octree normals clusterID i (points, seeds, clusterPoints, clusterNormals) =
     (if i < length seeds then
        (let meanNormal = mean clusterNormals
         in case centroidNormalNeighbours cfg (seeds ! i) meanNormal points normals octree of
              None \<Rightarrow> None
            | Some clusterNeighbours \<Rightarrow>
                if MIN_FACE_POINTS cfg \<le> fst clusterNeighbours
                then expand_normal_seeds cfg octree normals clusterID (i + 1)
                       (absorb_normals (int clusterID) normals (snd clusterNeighbours)
                          (points, seeds, clusterPoints, clusterNormals))
                else expand_normal_seeds cfg octree normals clusterID (i + 1)
                       (points, seeds, clusterPoints, clusterNormals))
      else Some (points, clusterPoints))"
  by pat_completeness auto
termination
proof (relation "measure (\<lambda>(cfg, octree, normals, clusterID, i, (points, seeds, cps, cns)).
                    unclassified points + (length seeds - i))", goal_cases)
  case 1
  show ?case by simp
next
  case 2
  from 2(1,3) show ?case by (rule expand_normal_seeds_decreases)
next
  case 3
  then show ?case by simp
qed

declare expand_normal_seeds.simps [simp del]

text \<open>\<open>expandNormalCluster\<close>.  Lines 138 to 146 are the loop \<open>mark_seeds\<close> of the spatial
  variant, and \<open>clusterNormals\<close> receives the normals of the seeds in their order.\<close>

definition expandNormalCluster ::
  "DBScan_config \<Rightarrow> nat \<Rightarrow> nat \<Rightarrow> Point list \<Rightarrow> Vector list \<Rightarrow> Octree \<Rightarrow>
   ((bool \<times> nat list) \<times> Point list) option" where
  "expandNormalCluster cfg centroid clusterID points normals octree =
     (if centroid < length normals then
        (case centroidNormalNeighbours cfg centroid (normals ! centroid) points normals octree of
           None \<Rightarrow> None
         | Some clusterSeeds \<Rightarrow>
             if length (snd clusterSeeds) < MIN_FACE_POINTS cfg
             then Some ((False, []), points[centroid := setClusterID cNoise (points ! centroid)])
             else
               (let clusterPoints = snd clusterSeeds;
                    clusterNormals = map (\<lambda>i. normals ! i) (snd clusterSeeds);
                    (points1, indexCorePoint) =
                       mark_seeds (int clusterID) centroid (snd clusterSeeds) 0 0 points
                in if indexCorePoint < length (snd clusterSeeds)
                   then (case expand_normal_seeds cfg octree normals clusterID 0
                                (points1, erase indexCorePoint (snd clusterSeeds), clusterPoints,
                                 clusterNormals) of
                           None \<Rightarrow> None
                         | Some (points2, clusterPoints2) \<Rightarrow>
                             Some ((True, clusterPoints2), points2))
                   else None))
      else None)"

text \<open>The loop of \<open>normals\<close>; \<open>normals[i]\<close> is only read for an unclassified point.\<close>

fun normals_loop ::
  "DBScan_config \<Rightarrow> Octree \<Rightarrow> Vector list \<Rightarrow> nat list \<Rightarrow> nat \<Rightarrow> Point list \<Rightarrow> nat list list \<Rightarrow>
   (nat list list \<times> Point list) option" where
  "normals_loop cfg octree normals [] clusterID points faces = Some (faces, points)"
| "normals_loop cfg octree normals (i # rest) clusterID points faces =
     (if getClusterID (points ! i) = cUnclassified then
        (if i < length normals then
           (if point_neq (normals ! i) Point0 then
              (case expandNormalCluster cfg i clusterID points normals octree of
                 None \<Rightarrow> None
               | Some (expansion, points') \<Rightarrow>
                   if fst expansion
                   then normals_loop cfg octree normals rest (clusterID + 1) points'
                          (faces @ [snd expansion])
                   else normals_loop cfg octree normals rest clusterID points' faces)
            else normals_loop cfg octree normals rest clusterID points faces)
         else None)
      else normals_loop cfg octree normals rest clusterID points faces)"

text \<open>\<open>DBScan::normals\<close>.  \<open>Geometry::computeNormals\<close>, whose source is absent and which rests
  on an eigendecomposition, is the parameter \<open>computeNormals\<close>.\<close>

definition normals ::
  "DBScan_config \<Rightarrow> (Point list \<Rightarrow> Octree \<Rightarrow> real \<Rightarrow> Vector list) \<Rightarrow> Point list \<Rightarrow>
   (nat list list \<times> Point list) option" where
  "normals cfg computeNormals points =
     (let clustermap = Octree_of (octree_config cfg) points;
          normal_vectors = computeNormals points clustermap (NORMAL_CALC_POINT_PROXIMITY cfg)
      in normals_loop cfg clustermap normal_vectors [0..<length points] 0 points [])"

subsection \<open>Notions used to state the properties of the face extraction\<close>



text \<open>The expansion loop as the amended sentence of the spec describes it: for every
  dequeued seed, \<open>mean_n\<close> is computed over the normals of all points currently in the
  cluster, and every neighbour of the seed is tested against it.\<close>

lemma expand_faces_decreases:
  assumes "i < length seeds"
    "centroidNormalNeighbours cfg centroid meanNormal points nv octree = Some cn"
  shows "((cfg, octree, nv, clusterID, i + 1, absorb (int clusterID) (snd cn) (points, seeds, cps)),
          (cfg, octree, nv, clusterID, i, (points, seeds, cps)))
         \<in> measure (\<lambda>(cfg, octree, nv, clusterID, i, (points, seeds, cps)).
                      unclassified points + (length seeds - i))"
proof -
  obtain points' seeds' cps' where
    a: "absorb (int clusterID) (snd cn) (points, seeds, cps) = (points', seeds', cps')"
    by (cases "absorb (int clusterID) (snd cn) (points, seeds, cps)")
  have "int clusterID \<noteq> cUnclassified" by (simp add: cUnclassified_def)
  from absorb_measure[OF centroidNormalNeighbours_range[OF assms(2)] this a] assms(1)
  show ?thesis by (simp add: a)
qed

function expand_faces_per_seed ::
  "DBScan_config \<Rightarrow> Octree \<Rightarrow> Vector list \<Rightarrow> nat \<Rightarrow> nat \<Rightarrow>
   Point list \<times> nat list \<times> nat list \<Rightarrow> (Point list \<times> nat list) option" where
  "expand_faces_per_seed cfg octree nv clusterID i (points, seeds, clusterPoints) =
     (if i < length seeds then
        (let mean_n = mean (map (\<lambda>j. nv ! j) clusterPoints)
         in case centroidNormalNeighbours cfg (seeds ! i) mean_n points nv octree of
              None \<Rightarrow> None
            | Some clusterNeighbours \<Rightarrow>
                if MIN_FACE_POINTS cfg \<le> fst clusterNeighbours
                then expand_faces_per_seed cfg octree nv clusterID (i + 1)
                       (absorb (int clusterID) (snd clusterNeighbours)
                          (points, seeds, clusterPoints))
                else expand_faces_per_seed cfg octree nv clusterID (i + 1)
                       (points, seeds, clusterPoints))
      else Some (points, clusterPoints))"
  by pat_completeness auto
termination
proof (relation "measure (\<lambda>(cfg, octree, nv, clusterID, i, (points, seeds, cps)).
                    unclassified points + (length seeds - i))", goal_cases)
  case 1
  show ?case by simp
next
  case 2
  from 2(1,3) show ?case by (rule expand_faces_decreases)
next
  case 3
  then show ?case by simp
qed

declare expand_faces_per_seed.simps [simp del]

subsection \<open>Four points with their normals\<close>

text \<open>Four points in the plane \<open>z = 0\<close>, a radius of 1, faces of at least two points, the
  angle \<open>arccos (1 / 9)\<close> as bound of the pair test and of its mean test, and 0 as bound of
  the mean-only test.  The normals of points 2 and 3 lean to opposite sides.\<close>

definition face_config :: DBScan_config where
  "face_config =
     \<lparr>MAX_POINTS_PER_LEAF = 100, MIN_NODE_HALF_EXTENT = Abs_posreal 1,
      CLUSTER_POINT_PROXIMITY = 1, MIN_CLUSTER_POINTS = 2,
      FACE_POINT_PROXIMITY = 1, MIN_FACE_POINTS = 2, NORMAL_CALC_POINT_PROXIMITY = 1,
      MAX_NORMAL_VECT_ANGLE = arccos (1 / 9), MAX_MEAN_VECT_ANGLE = arccos (1 / 9),
      MAX_MEAN_VECT_ANGLE_SINGLE = 0\<rparr>"

definition face_points :: "Point list" where
  "face_points = [mkPoint 0 0 0, mkPoint 1 0 0, mkPoint 2 0 0, mkPoint 1 1 0]"

definition face_normals :: "Vector list" where
  "face_normals =
     [mkPoint 0 0 1, mkPoint 0 0 1, mkPoint (8 / 9) (4 / 9) (1 / 9),
      mkPoint (- 8 / 9) (- 4 / 9) (1 / 9)]"



section \<open>Properties of the geometry primitives\<close>

lemma bbox_step_X:
  assumes "getX mn \<le> getX mx" "bbox_step p (mn, mx) = (mn', mx')"
  shows "getX mn' = min (getX mn) (getX p) \<and> getX mx' = max (getX mx) (getX p)"
  using assms by (auto simp: bbox_step_def Let_def setX_def setY_def setZ_def split: if_splits)

lemma bbox_step_Y:
  assumes "getY mn \<le> getY mx" "bbox_step p (mn, mx) = (mn', mx')"
  shows "getY mn' = min (getY mn) (getY p) \<and> getY mx' = max (getY mx) (getY p)"
  using assms by (auto simp: bbox_step_def Let_def setX_def setY_def setZ_def split: if_splits)

lemma bbox_step_Z:
  assumes "getZ mn \<le> getZ mx" "bbox_step p (mn, mx) = (mn', mx')"
  shows "getZ mn' = min (getZ mn) (getZ p) \<and> getZ mx' = max (getZ mx) (getZ p)"
  using assms by (auto simp: bbox_step_def Let_def setX_def setY_def setZ_def split: if_splits)

text \<open>Along one axis \<open>f\<close> the loop keeps the running minimum and maximum: the
  \<open>else if\<close> of the loop body loses nothing, because a coordinate below the minimum is
  never above the maximum.\<close>

lemma fold_minmax:
  fixes f :: "Point \<Rightarrow> real"
  assumes step: "\<And>p mn mx mn' mx'. f mn \<le> f mx \<Longrightarrow> bbox_step p (mn, mx) = (mn', mx') \<Longrightarrow>
             f mn' = min (f mn) (f p) \<and> f mx' = max (f mx) (f p)"
  shows "f mn \<le> f mx \<Longrightarrow> fold bbox_step ps (mn, mx) = (mn', mx') \<Longrightarrow>
         f mn' = Min (insert (f mn) (f ` set ps)) \<and> f mx' = Max (insert (f mx) (f ` set ps))"
proof (induction ps arbitrary: mn mx)
  case Nil
  then show ?case by simp
next
  case (Cons p ps)
  obtain mn1 mx1 where s: "bbox_step p (mn, mx) = (mn1, mx1)" by (cases "bbox_step p (mn, mx)")
  from step[OF Cons.prems(1) s] have e: "f mn1 = min (f mn) (f p)" "f mx1 = max (f mx) (f p)" by auto
  then have le: "f mn1 \<le> f mx1" using Cons.prems(1) by auto
  from Cons.prems(2) s have "fold bbox_step ps (mn1, mx1) = (mn', mx')" by simp
  from Cons.IH[OF le this] have
    "f mn' = Min (insert (f mn1) (f ` set ps))" "f mx' = Max (insert (f mx1) (f ` set ps))" by auto
  then show ?case unfolding e
    by (cases "ps = []") (simp_all add: min.assoc max.assoc)
qed

lemma BBox_of_nonempty:
  assumes "ps \<noteq> []"
  shows "getX (getMin (BBox_of ps)) = Min (getX ` set ps)"
    "getY (getMin (BBox_of ps)) = Min (getY ` set ps)"
    "getZ (getMin (BBox_of ps)) = Min (getZ ` set ps)"
    "getX (getMax (BBox_of ps)) = Max (getX ` set ps)"
    "getY (getMax (BBox_of ps)) = Max (getY ` set ps)"
    "getZ (getMax (BBox_of ps)) = Max (getZ ` set ps)"
    "getX (getDelta (BBox_of ps)) = getX (getMax (BBox_of ps)) - getX (getMin (BBox_of ps))"
    "getY (getDelta (BBox_of ps)) = getY (getMax (BBox_of ps)) - getY (getMin (BBox_of ps))"
    "getZ (getDelta (BBox_of ps)) = getZ (getMax (BBox_of ps)) - getZ (getMin (BBox_of ps))"
proof -
  from assms obtain p0 rest where Cons: "ps = p0 # rest" by (cases ps) auto
  obtain mn mx where f: "fold bbox_step rest (p0, p0) = (mn, mx)"
    by (cases "fold bbox_step rest (p0, p0)")
  have b: "BBox_of ps = \<lparr>getDelta = point_minus mx mn, getMin = mn, getMax = mx\<rparr>"
    using Cons f by (simp add: BBox_of_def)
  have X: "getX mn = Min (getX ` set ps) \<and> getX mx = Max (getX ` set ps)"
    using fold_minmax[where f = getX, OF bbox_step_X _ f] Cons by simp
  have Y: "getY mn = Min (getY ` set ps) \<and> getY mx = Max (getY ` set ps)"
    using fold_minmax[where f = getY, OF bbox_step_Y _ f] Cons by simp
  have Z: "getZ mn = Min (getZ ` set ps) \<and> getZ mx = Max (getZ ` set ps)"
    using fold_minmax[where f = getZ, OF bbox_step_Z _ f] Cons by simp
  show "getX (getMin (BBox_of ps)) = Min (getX ` set ps)"
    "getY (getMin (BBox_of ps)) = Min (getY ` set ps)"
    "getZ (getMin (BBox_of ps)) = Min (getZ ` set ps)"
    "getX (getMax (BBox_of ps)) = Max (getX ` set ps)"
    "getY (getMax (BBox_of ps)) = Max (getY ` set ps)"
    "getZ (getMax (BBox_of ps)) = Max (getZ ` set ps)"
    "getX (getDelta (BBox_of ps)) = getX (getMax (BBox_of ps)) - getX (getMin (BBox_of ps))"
    "getY (getDelta (BBox_of ps)) = getY (getMax (BBox_of ps)) - getY (getMin (BBox_of ps))"
    "getZ (getDelta (BBox_of ps)) = getZ (getMax (BBox_of ps)) - getZ (getMin (BBox_of ps))"
    unfolding b using X Y Z by (simp_all add: point_minus_def mkPoint_def)
qed




subsection \<open>Rounding of the difference in \<open>operator==\<close>\<close>

lemma round_even_le:
  assumes "y \<le> of_int n"
  shows "round_even y \<le> n"
proof -
  have f: "of_int \<lfloor>y\<rfloor> \<le> y" "y < of_int \<lfloor>y\<rfloor> + 1" by linarith+
  have fn: "\<lfloor>y\<rfloor> \<le> n" using assms by (simp add: floor_le_iff)
  show ?thesis
  proof (cases "\<lfloor>y\<rfloor> = n")
    case True
    then have "y - of_int \<lfloor>y\<rfloor> \<le> 0" using assms by simp
    then show ?thesis using True by (simp add: round_even_def Let_def)
  next
    case False
    then have "\<lfloor>y\<rfloor> + 1 \<le> n" using fn by simp
    then show ?thesis using fn by (simp add: round_even_def Let_def)
  qed
qed

lemma round_even_ge:
  assumes "of_int n \<le> y"
  shows "n \<le> round_even y"
proof -
  have "n \<le> \<lfloor>y\<rfloor>" using assms by (simp add: le_floor_iff)
  then show ?thesis by (simp add: round_even_def Let_def)
qed

lemma round_even_le_even:
  assumes "even n"
  shows "round_even y \<le> n \<longleftrightarrow> y \<le> of_int n + 1 / 2"
proof
  assume le: "y \<le> of_int n + 1 / 2"
  show "round_even y \<le> n"
  proof (cases "y \<le> of_int n")
    case True
    then show ?thesis by (rule round_even_le)
  next
    case False
    then have "of_int n \<le> y" "y < of_int n + 1" using le by simp_all
    then have f: "\<lfloor>y\<rfloor> = n" by linarith
    then show ?thesis using le assms by (simp add: round_even_def Let_def)
  qed
next
  assume r: "round_even y \<le> n"
  show "y \<le> of_int n + 1 / 2"
  proof (rule ccontr)
    assume "\<not> y \<le> of_int n + 1 / 2"
    then have gt: "of_int n + 1 / 2 < y" by simp
    then have fn: "n \<le> \<lfloor>y\<rfloor>" by (simp add: le_floor_iff)
    show False
    proof (cases "\<lfloor>y\<rfloor> = n")
      case True
      then have "1 / 2 < y - of_int \<lfloor>y\<rfloor>" using gt by simp
      then have "round_even y = n + 1" using True by (simp add: round_even_def Let_def)
      with r show False by simp
    next
      case False
      then have "n < \<lfloor>y\<rfloor>" using fn by simp
      moreover have "\<lfloor>y\<rfloor> \<le> round_even y" by (simp add: round_even_def Let_def)
      ultimately show False using r by simp
    qed
  qed
qed

lemma binade_bounds:
  assumes "x \<noteq> 0"
  shows "2 powr of_int (binade x) \<le> \<bar>x\<bar>" "\<bar>x\<bar> < 2 powr (of_int (binade x) + 1)"
proof -
  have p: "0 < \<bar>x\<bar>" using assms by simp
  have "of_int (binade x) \<le> log 2 \<bar>x\<bar>" by (simp add: binade_def)
  then show "2 powr of_int (binade x) \<le> \<bar>x\<bar>" using p by (simp add: le_log_iff)
  have "log 2 \<bar>x\<bar> < of_int (binade x) + 1" unfolding binade_def by linarith
  then show "\<bar>x\<bar> < 2 powr (of_int (binade x) + 1)" using p by (simp add: log_less_iff)
qed

lemma two_powr_neg: "2 powr (- real n) = 1 / 2 ^ n"
  by (simp add: powr_minus powr_realpow divide_inverse)

lemma ulp_pos: "0 < ulp x"
  by (simp add: ulp_def)

lemma abs_round_double:
  assumes "x \<noteq> 0"
  shows "\<bar>round_double x\<bar> = of_int (round_even (\<bar>x\<bar> / ulp x)) * ulp x"
proof -
  have "0 \<le> \<bar>x\<bar> / ulp x" using ulp_pos[of x] by simp
  then have "(0::int) \<le> round_even (\<bar>x\<bar> / ulp x)" by (intro round_even_ge) simp
  then have n: "\<bar>real_of_int (round_even (\<bar>x\<bar> / ulp x))\<bar> = of_int (round_even (\<bar>x\<bar> / ulp x))"
    by simp
  have u: "\<bar>ulp x\<bar> = ulp x" using ulp_pos[of x] by simp
  have s: "\<bar>sgn x\<bar> = 1" using assms by (simp add: abs_sgn_eq)
  show ?thesis using assms by (simp add: round_double_def abs_mult n u s)
qed

lemma abs_round_double_le_epsilon:
  "\<bar>round_double x\<bar> \<le> 1 / 2 ^ 52 \<longleftrightarrow> \<bar>x\<bar> \<le> 1 / 2 ^ 52 + 1 / 2 ^ 105"
proof (cases "x = 0")
  case True
  then show ?thesis by (simp add: round_double_def)
next
  case False
  define a :: real where "a = \<bar>x\<bar>"
  define b where "b = binade x"
  define m where "m = max b (- 1022)"
  define U :: real where "U = 2 powr (of_int m - 52)"
  define N where "N = round_even (a / U)"
  have U: "0 < U" by (simp add: U_def)
  have ulp: "ulp x = U" by (simp add: ulp_def U_def m_def b_def)
  have rd: "\<bar>round_double x\<bar> = of_int N * U"
    using abs_round_double[OF False] by (simp add: ulp N_def a_def)
  have lo: "2 powr of_int b \<le> a" and hi: "a < 2 powr (of_int b + 1)"
    using binade_bounds[OF False] by (simp_all add: a_def b_def)
  have p53: "2 powr (of_int m + 1) = 2 ^ 53 * U"
  proof -
    have "of_int m + 1 = 53 + (real_of_int m - 52)" by simp
    then have "(2::real) powr (of_int m + 1) = 2 powr (53 + (of_int m - 52))" by (rule arg_cong)
    also have "\<dots> = 2 powr 53 * U" unfolding U_def by (rule powr_add)
    finally show ?thesis by simp
  qed
  have p52: "2 powr of_int m = 2 ^ 52 * U"
  proof -
    have "real_of_int m = 52 + (real_of_int m - 52)" by simp
    then have "(2::real) powr of_int m = 2 powr (52 + (of_int m - 52))" by (rule arg_cong)
    also have "\<dots> = 2 powr 52 * U" unfolding U_def by (rule powr_add)
    finally show ?thesis by simp
  qed
  have e52: "2 powr (- 52) = (1 / 2 ^ 52 :: real)" using two_powr_neg[of 52] by simp
  have e51: "2 powr (- 51) = (1 / 2 ^ 51 :: real)" using two_powr_neg[of 51] by simp
  consider (small) "b \<le> - 53" | (edge) "b = - 52" | (large) "- 51 \<le> b" by linarith
  then show ?thesis
  proof cases
    case small
    then have m53: "m \<le> - 53" by (simp add: m_def)
    have bm: "b \<le> m" by (simp add: m_def)
    have "a < 2 powr (of_int m + 1)"
    proof -
      have "(2::real) powr (of_int b + 1) \<le> 2 powr (of_int m + 1)" using bm by simp
      with hi show ?thesis by linarith
    qed
    then have "a / U < 2 ^ 53" using U by (simp add: p53 pos_divide_less_eq)
    then have "a / U \<le> of_int (2 ^ 53)" by simp
    then have "N \<le> 2 ^ 53" unfolding N_def by (rule round_even_le)
    then have "of_int N \<le> (2 ^ 53 :: real)" by (metis of_int_le_iff of_int_numeral of_int_power)
    then have "of_int N * U \<le> 2 ^ 53 * U" using U by simp
    also have "\<dots> = 2 powr (of_int m + 1)" by (simp add: p53)
    also have "\<dots> \<le> 2 powr (- 52)"
    proof -
      have "of_int m + 1 \<le> (- 52 :: real)" using m53 by linarith
      then show ?thesis by simp
    qed
    finally have l: "\<bar>round_double x\<bar> \<le> 1 / 2 ^ 52" by (simp add: rd e52)
    have "(2::real) powr (of_int b + 1) \<le> 2 powr (- 52)"
    proof -
      have "of_int b + 1 \<le> (- 52 :: real)" using small by linarith
      then show ?thesis by simp
    qed
    with hi have "a < 1 / 2 ^ 52" by (simp add: e52)
    then have r: "\<bar>x\<bar> \<le> 1 / 2 ^ 52 + 1 / 2 ^ 105" by (simp add: a_def)
    from l r show ?thesis by simp
  next
    case edge
    then have m: "m = - 52" by (simp add: m_def)
    have Uv: "U = 1 / 2 ^ 104" using two_powr_neg[of 104] by (simp add: U_def m)
    have "of_int N * U \<le> 1 / 2 ^ 52 \<longleftrightarrow> of_int N \<le> (2 ^ 52 :: real)"
      by (simp add: Uv field_simps)
    also have "\<dots> \<longleftrightarrow> N \<le> 2 ^ 52" by (metis of_int_le_iff of_int_numeral of_int_power)
    also have "\<dots> \<longleftrightarrow> a / U \<le> of_int (2 ^ 52) + 1 / 2"
      unfolding N_def by (rule round_even_le_even) simp
    also have "\<dots> \<longleftrightarrow> a \<le> 1 / 2 ^ 52 + 1 / 2 ^ 105"
      by (simp add: Uv field_simps)
    finally show ?thesis by (simp add: rd a_def)
  next
    case large
    then have m: "m = b" by (simp add: m_def)
    have pb: "2 powr of_int b = 2 ^ 52 * U" using p52 by (simp only: m)
    have "2 ^ 52 * U \<le> a" using lo unfolding pb .
    then have "of_int (2 ^ 52) \<le> a / U" using U by (simp add: pos_le_divide_eq)
    then have "2 ^ 52 \<le> N" unfolding N_def by (rule round_even_ge)
    then have "(2 ^ 52 :: real) \<le> of_int N" by (metis of_int_le_iff of_int_numeral of_int_power)
    then have nu: "2 ^ 52 * U \<le> of_int N * U" using U by simp
    have b51: "(2::real) powr (- 51) \<le> 2 powr of_int b"
    proof -
      have "(- 51 :: real) \<le> of_int b" using large by linarith
      then show ?thesis by simp
    qed
    then have lb: "1 / 2 ^ 51 \<le> 2 ^ 52 * U" unfolding pb e51 .
    from lb nu have "1 / 2 ^ 51 \<le> of_int N * U" by (rule order_trans)
    then have l: "\<not> \<bar>round_double x\<bar> \<le> 1 / 2 ^ 52" by (simp add: rd)
    from lb \<open>2 ^ 52 * U \<le> a\<close> have "1 / 2 ^ 51 \<le> a" by (rule order_trans)
    then have r: "\<not> \<bar>x\<bar> \<le> 1 / 2 ^ 52 + 1 / 2 ^ 105" by (simp add: a_def)
    from l r show ?thesis by simp
  qed
qed

text \<open>In terms of the exact difference: the rounded difference stays within epsilon up to
  the midpoint between epsilon and the next double, which rounds to epsilon.\<close>

lemma point_eq_exact:
  "point_eq p q \<longleftrightarrow>
     \<bar>getX p - getX q\<bar> \<le> 1 / 2 ^ 52 + 1 / 2 ^ 105 \<and>
     \<bar>getY p - getY q\<bar> \<le> 1 / 2 ^ 52 + 1 / 2 ^ 105 \<and>
     \<bar>getZ p - getZ q\<bar> \<le> 1 / 2 ^ 52 + 1 / 2 ^ 105"
  by (simp only: point_eq_def epsilon_def double_minus_def abs_round_double_le_epsilon)

lemma point_eq_rounded_difference:
  "point_eq (mkPoint (1 / 2 ^ 52) 0 0) (mkPoint (- (1 / 2 ^ 106)) 0 0) \<and>
   \<not> \<bar>1 / 2 ^ 52 - (- (1 / 2 ^ 106))\<bar> \<le> (1 / 2 ^ 52 :: real)"
  by (simp add: point_eq_exact mkPoint_def)


section \<open>Properties of the LVX scanner\<close>

lemmas scanner_example_defs =
  opened_scanner_def one_packet_frame_def two_points_packet_def small_tables_def
  recording_client_def kExtendCartesian_def sizeof_LivoxExtendRawPoint_def

lemmas scanner_eval =
  scan_def readData_def GetPacketsOfFrame_def packet_body_def call_callback_def pause_def
  Open_def CloseLvxFile_def Let_def points_loop.simps packets_loop.simps frames_loop.simps

text \<open>
  Claim C10.  A call of \<open>scan()\<close> while the scanning flag is set returns \<open>kScanError\<close> and
  leaves the whole scanner as it was: both offsets, the flag and the file handle are
  unchanged, and the callback is not called (the client's state is unchanged).
\<close>

theorem scan_while_scanning:
  "scanning s \<Longrightarrow> scan V s = (kScanError, s)"
  by (simp add: scan_def)

theorem scan_while_scanning_witness:
  "scanning (opened_scanner\<lparr>scanning := True\<rparr>) \<and>
   scan small_tables (opened_scanner\<lparr>scanning := True\<rparr>)
     = (kScanError, opened_scanner\<lparr>scanning := True\<rparr>)"
  using scan_while_scanning [of "opened_scanner\<lparr>scanning := True\<rparr>" small_tables]
  by simp

text \<open>
  Claim C7 says that every decoded point reaches the callback exactly once, also the
  point in hand when \<open>pause()\<close> takes effect.  On the file of two points the client pauses
  the scanner while it handles the second point; the first \<open>scan()\<close> returns \<open>kScanOk\<close>
  with \<open>packetOffset\<close> still at that point, and the second \<open>scan()\<close>, which reads the file
  to its end, hands the same point to the callback again.
\<close>

theorem scan_pause_scan_repeats_point:
  "fst (scan small_tables opened_scanner) = kScanOk \<and>
   packetOffset (snd (scan small_tables opened_scanner)) = 14 \<and>
   client (snd (scan small_tables opened_scanner)) = [(7, 100, 0, 0, 0), (7, 100, 1, 0, 0)] \<and>
   fst (scan small_tables (snd (scan small_tables opened_scanner))) = kScanEof \<and>
   client (snd (scan small_tables (snd (scan small_tables opened_scanner))))
     = [(7, 100, 0, 0, 0), (7, 100, 1, 0, 0), (7, 100, 1, 0, 0)]"
  by (simp add: scanner_example_defs scanner_eval)

section \<open>Properties of the spatial index\<close>

lemma abs_le_sqrt_sum:
  fixes a b c :: real
  shows "\<bar>a\<bar> \<le> sqrt (a * a + b * b + c * c)"
proof -
  have "\<bar>a\<bar> = sqrt (a * a)" by simp
  also have "\<dots> \<le> sqrt (a * a + b * b + c * c)"
    by (rule real_sqrt_le_mono) simp
  finally show ?thesis .
qed

lemma inside_kernel_axes:
  assumes "inside_kernel k center radius p"
  shows "\<bar>getX p - getX center\<bar> \<le> radius \<and> \<bar>getY p - getY center\<bar> \<le> radius \<and>
         \<bar>getZ p - getZ center\<bar> \<le> radius"
proof (cases k)
  case cube
  with assms show ?thesis by simp
next
  case sphere
  let ?dx = "getX p - getX center" and ?dy = "getY p - getY center" and ?dz = "getZ p - getZ center"
  from sphere assms have d: "sqrt (?dx * ?dx + ?dy * ?dy + ?dz * ?dz) \<le> radius"
    by (simp add: distance3D_def Let_def)
  have "\<bar>?dx\<bar> \<le> sqrt (?dx * ?dx + ?dy * ?dy + ?dz * ?dz)" by (rule abs_le_sqrt_sum)
  moreover have "\<bar>?dy\<bar> \<le> sqrt (?dy * ?dy + ?dx * ?dx + ?dz * ?dz)" by (rule abs_le_sqrt_sum)
  moreover have "\<bar>?dz\<bar> \<le> sqrt (?dz * ?dz + ?dx * ?dx + ?dy * ?dy)" by (rule abs_le_sqrt_sum)
  ultimately show ?thesis using d by (simp add: add.commute add.left_commute)
qed

lemma pruned_is_empty:
  assumes "in_cube nc nh p" "inside_kernel k center radius p"
  shows "intersects_envelope nc nh center radius"
  using assms(1) inside_kernel_axes[OF assms(2)]
  by (auto simp: in_cube_def intersects_envelope_def)

lemma search_filter:
  "octree_inv pts t \<Longrightarrow>
   search pts k center radius t = filter (\<lambda>i. inside_kernel k center radius (pts ! i)) (indices t)"
proof (induction t)
  case (Leaf c h idxs)
  show ?case by simp
next
  case (Node c h children)
  have "(if intersects_envelope (center_of t) (half_extent_of t) center radius
         then search pts k center radius t else [])
        = filter (\<lambda>i. inside_kernel k center radius (pts ! i)) (indices t)"
    if t: "t \<in> set children" for t
  proof (cases "intersects_envelope (center_of t) (half_extent_of t) center radius")
    case True
    then show ?thesis using Node.IH[OF t] Node.prems t by simp
  next
    case False
    have "\<not> inside_kernel k center radius (pts ! i)" if i: "i \<in> set (indices t)" for i
    proof
      assume ins: "inside_kernel k center radius (pts ! i)"
      from Node.prems t i have "in_cube (center_of t) (half_extent_of t) (pts ! i)" by simp
      from pruned_is_empty[OF this ins] False show False by simp
    qed
    then have "filter (\<lambda>i. inside_kernel k center radius (pts ! i)) (indices t) = []"
      by (simp add: filter_empty_conv)
    with False show ?thesis by simp
  qed
  then show ?case
    by (simp add: filter_concat comp_def cong: map_cong)
qed

lemma octant_less: "octant c p < 8"
  by (simp add: octant_def)

lemma axis_child:
  fixes p c h :: real
  assumes "\<bar>p - c\<bar> \<le> h"
  shows "\<bar>p - (c + (if p - c < 0 then - (h / 2) else h / 2))\<bar> \<le> h / 2"
proof (cases "p - c < 0")
  case True
  then show ?thesis using assms by (simp only: if_True)
next
  case False
  then show ?thesis using assms by (simp only: if_False)
qed

lemma octant_bits:
  "odd (octant c p) \<longleftrightarrow> \<not> getX p - getX c < 0"
  "odd (octant c p div 2) \<longleftrightarrow> \<not> getY p - getY c < 0"
  "odd (octant c p div 4) \<longleftrightarrow> \<not> getZ p - getZ c < 0"
  by (simp_all add: octant_def)

lemma in_child_cube:
  assumes "in_cube c h p"
  shows "in_cube (child_center c h (octant c p)) (h / 2) p"
proof -
  from assms have a: "\<bar>getX p - getX c\<bar> \<le> h" "\<bar>getY p - getY c\<bar> \<le> h" "\<bar>getZ p - getZ c\<bar> \<le> h"
    by (simp_all add: in_cube_def)
  show ?thesis
    unfolding in_cube_def child_center_def mkPoint_def octant_bits
    using axis_child[OF a(1)] axis_child[OF a(2)] axis_child[OF a(3)]
    by (simp split: if_splits)
qed

lemma distinct_concat_map:
  "distinct ks \<Longrightarrow> (\<And>k. k \<in> set ks \<Longrightarrow> distinct (g k)) \<Longrightarrow>
   (\<And>k k'. k \<in> set ks \<Longrightarrow> k' \<in> set ks \<Longrightarrow> k \<noteq> k' \<Longrightarrow> set (g k) \<inter> set (g k') = {}) \<Longrightarrow>
   distinct (concat (map g ks))"
  by (induction ks) auto

lemma build_node_indices:
  "set (indices (build_node cfg pts c h idxs)) = set idxs"
proof (induction cfg pts c h idxs rule: build_node.induct)
  case (1 cfg pts c h idxs)
  show ?case
  proof (cases "MAX_POINTS_PER_LEAF cfg < length idxs \<and> Rep_posreal (MIN_NODE_HALF_EXTENT cfg) < h")
    case True
    have "set (indices (build_node cfg pts (child_center c h k) (h / 2)
                  (filter (\<lambda>i. octant c (pts ! i) = k) idxs)))
          = {i \<in> set idxs. octant c (pts ! i) = k}" if "k < 8" for k
      using 1[OF True, of k] that by simp
    then have "set (indices (build_node cfg pts c h idxs))
               = (\<Union>k \<in> {0..<8}. {i \<in> set idxs. octant c (pts ! i) = k})"
      using True by (subst build_node.simps) (simp add: comp_def)
    also have "\<dots> = set idxs" using octant_less by auto
    finally show ?thesis .
  next
    case False
    then show ?thesis by (subst build_node.simps) auto
  qed
qed

lemma build_node_distinct:
  "distinct idxs \<Longrightarrow> distinct (indices (build_node cfg pts c h idxs))"
proof (induction cfg pts c h idxs rule: build_node.induct)
  case (1 cfg pts c h idxs)
  show ?case
  proof (cases "MAX_POINTS_PER_LEAF cfg < length idxs \<and> Rep_posreal (MIN_NODE_HALF_EXTENT cfg) < h")
    case True
    let ?g = "\<lambda>k. indices (build_node cfg pts (child_center c h k) (h / 2)
                  (filter (\<lambda>i. octant c (pts ! i) = k) idxs))"
    have "distinct (concat (map ?g [0..<8]))"
    proof (rule distinct_concat_map)
      show "distinct [0..<8::nat]" by simp
      show "distinct (?g k)" if "k \<in> set [0..<8]" for k
        using 1(1)[OF True that] 1(2) by simp
      show "set (?g k) \<inter> set (?g k') = {}" if "k \<noteq> k'" for k k'
        using that by (auto simp: build_node_indices)
    qed
    then show ?thesis using True by (subst build_node.simps) (simp add: comp_def)
  next
    case False
    then show ?thesis using 1(2) by (subst build_node.simps) auto
  qed
qed

lemma build_node_inv:
  "\<forall>i \<in> set idxs. in_cube c h (pts ! i) \<Longrightarrow> octree_inv pts (build_node cfg pts c h idxs)"
proof (induction cfg pts c h idxs rule: build_node.induct)
  case (1 cfg pts c h idxs)
  show ?case
  proof (cases "MAX_POINTS_PER_LEAF cfg < length idxs \<and> Rep_posreal (MIN_NODE_HALF_EXTENT cfg) < h")
    case True
    have ctr: "center_of (build_node cfg pts c' h' is) = c' \<and> half_extent_of (build_node cfg pts c' h' is) = h'"
      for c' h' "is"
      by (subst (1 2) build_node.simps) simp
    have "octree_inv pts (build_node cfg pts (child_center c h k) (h / 2)
                  (filter (\<lambda>i. octant c (pts ! i) = k) idxs)) \<and>
          (\<forall>i \<in> {i \<in> set idxs. octant c (pts ! i) = k}. in_cube (child_center c h k) (h / 2) (pts ! i))"
      if k: "k \<in> set [0..<8]" for k
    proof -
      have c: "\<forall>i \<in> set (filter (\<lambda>i. octant c (pts ! i) = k) idxs). in_cube (child_center c h k) (h / 2) (pts ! i)"
        using 1(2) in_child_cube by auto
      from 1(1)[OF True k c] c show ?thesis by simp
    qed
    then show ?thesis using True
      by (subst build_node.simps) (simp add: ctr build_node_indices)
  next
    case False
    then show ?thesis using 1(2) by (subst build_node.simps) auto
  qed
qed

lemma interval_center:
  fixes p lo hi h :: real
  assumes "lo \<le> p" "p \<le> hi" "(hi - lo) / 2 \<le> h"
  shows "\<bar>p - (lo + hi) / 2\<bar> \<le> h"
  using assms by (simp add: abs_le_iff field_simps)

lemma root_cube:
  assumes "pts \<noteq> []" "i < length pts"
  shows "in_cube (mkPoint ((getX (getMin (BBox_of pts)) + getX (getMax (BBox_of pts))) / 2)
                          ((getY (getMin (BBox_of pts)) + getY (getMax (BBox_of pts))) / 2)
                          ((getZ (getMin (BBox_of pts)) + getZ (getMax (BBox_of pts))) / 2))
                 (max (max (getX (getDelta (BBox_of pts))) (getY (getDelta (BBox_of pts))))
                      (getZ (getDelta (BBox_of pts))) / 2)
                 (pts ! i)"
proof -
  note B = BBox_of_nonempty[OF assms(1)]
  have m: "pts ! i \<in> set pts" using assms(2) by simp
  have X: "Min (getX ` set pts) \<le> getX (pts ! i)" "getX (pts ! i) \<le> Max (getX ` set pts)"
    using m by simp_all
  have Y: "Min (getY ` set pts) \<le> getY (pts ! i)" "getY (pts ! i) \<le> Max (getY ` set pts)"
    using m by simp_all
  have Z: "Min (getZ ` set pts) \<le> getZ (pts ! i)" "getZ (pts ! i) \<le> Max (getZ ` set pts)"
    using m by simp_all
  define h where "h = max (max (Max (getX ` set pts) - Min (getX ` set pts))
                              (Max (getY ` set pts) - Min (getY ` set pts)))
                         (Max (getZ ` set pts) - Min (getZ ` set pts)) / 2"
  have hx: "(Max (getX ` set pts) - Min (getX ` set pts)) / 2 \<le> h"
    and hy: "(Max (getY ` set pts) - Min (getY ` set pts)) / 2 \<le> h"
    and hz: "(Max (getZ ` set pts) - Min (getZ ` set pts)) / 2 \<le> h"
    unfolding h_def by (rule divide_right_mono; simp)+
  have "\<bar>getX (pts ! i) - (Min (getX ` set pts) + Max (getX ` set pts)) / 2\<bar> \<le> h"
    "\<bar>getY (pts ! i) - (Min (getY ` set pts) + Max (getY ` set pts)) / 2\<bar> \<le> h"
    "\<bar>getZ (pts ! i) - (Min (getZ ` set pts) + Max (getZ ` set pts)) / 2\<bar> \<le> h"
    using interval_center[OF X hx] interval_center[OF Y hy] interval_center[OF Z hz] by simp_all
  then show ?thesis
    unfolding in_cube_def B h_def by (simp add: mkPoint_def)
qed

lemma Octree_of_indices:
  "set (indices (Octree_of cfg pts)) = {..<length pts}"
  "distinct (indices (Octree_of cfg pts))"
  by (auto simp: Octree_of_def Let_def build_node_indices build_node_distinct)

lemma Octree_of_inv: "octree_inv pts (Octree_of cfg pts)"
proof (cases "pts = []")
  case True
  then show ?thesis by (simp add: Octree_of_def)
next
  case False
  then show ?thesis
    unfolding Octree_of_def Let_def
    by (simp add: build_node_inv root_cube)
qed

lemma searchNeighbors_filter:
  "octree_inv pts t \<Longrightarrow>
   searchNeighbors pts t center radius k
     = filter (\<lambda>i. inside_kernel k center radius (pts ! i)) (indices t)"
  by (simp add: searchNeighbors_def search_filter)

text \<open>
  Claim C1.  For every point array, centre and radius, \<open>searchNeighbors\<close> with the sphere
  kernel on the octree built over the array returns exactly the points whose Euclidean
  distance to the centre is at most the radius: none is missing, none is extra, none is
  returned twice, and it is the set a linear scan over the array finds.
\<close>

theorem searchNeighbors_sphere_exact:
  "set (searchNeighbors pts (Octree_of cfg pts) center radius sphere)
     = {i. i < length pts \<and> distance3D (pts ! i) center \<le> radius} \<and>
   distinct (searchNeighbors pts (Octree_of cfg pts) center radius sphere) \<and>
   set (searchNeighbors pts (Octree_of cfg pts) center radius sphere)
     = set (linear_scan pts center radius)"
  by (auto simp: searchNeighbors_filter Octree_of_inv Octree_of_indices linear_scan_def)

section \<open>Properties of spatial DBSCAN\<close>

lemma same_coords_setClusterID [simp]:
  "same_coords (setClusterID c p) q = same_coords p q"
  "same_coords p (setClusterID c q) = same_coords p q"
  "same_coords p p"
  by (simp_all add: same_coords_def setClusterID_def)

lemma in_cube_coords: "same_coords p q \<Longrightarrow> in_cube c h p = in_cube c h q"
  by (simp add: in_cube_def same_coords_def)

lemma distance3D_coords:
  "same_coords p q \<Longrightarrow> distance3D p c = distance3D q c"
  "same_coords p q \<Longrightarrow> distance3D c p = distance3D c q"
  by (simp_all add: distance3D_def same_coords_def)

lemma octree_inv_coords:
  assumes "\<forall>i \<in> set (indices t). same_coords (ps ! i) (qs ! i)"
  shows "octree_inv ps t = octree_inv qs t"
  using assms
proof (induction t)
  case (Leaf c h idxs)
  have "in_cube c h (ps ! i) = in_cube c h (qs ! i)" if "i \<in> set idxs" for i
    using Leaf that by (intro in_cube_coords) simp
  then show ?case by simp
next
  case (Node c h children)
  have "octree_inv ps t = octree_inv qs t \<and>
        (\<forall>i \<in> set (indices t). in_cube (center_of t) (half_extent_of t) (ps ! i)
                               = in_cube (center_of t) (half_extent_of t) (qs ! i))"
    if "t \<in> set children" for t
  proof -
    have "in_cube (center_of t) (half_extent_of t) (ps ! i)
            = in_cube (center_of t) (half_extent_of t) (qs ! i)" if "i \<in> set (indices t)" for i
      using Node.prems \<open>t \<in> set children\<close> that by (intro in_cube_coords) auto
    moreover have "octree_inv ps t = octree_inv qs t"
      using Node.IH[OF that] Node.prems that by auto
    ultimately show ?thesis by simp
  qed
  then show ?case by auto
qed

lemma retagged_coords:
  "retagged c S ps qs \<Longrightarrow> i < length ps \<Longrightarrow> same_coords (qs ! i) (ps ! i)"
  by (simp add: retagged_def)

lemma indexes_retagged:
  assumes "indexes ps t" "retagged c S ps qs"
  shows "indexes qs t"
proof -
  have "\<forall>i \<in> set (indices t). same_coords (qs ! i) (ps ! i)"
    using assms by (auto simp: indexes_def retagged_coords)
  from octree_inv_coords[OF this] assms show ?thesis
    by (simp add: indexes_def retagged_def)
qed

lemma centroidNeighbours_indexes:
  assumes "indexes points octree"
  shows "centroidNeighbours cfg centroid points octree =
           Some (length (neighbours (CLUSTER_POINT_PROXIMITY cfg) points octree centroid),
                 filter (\<lambda>np. getClusterID (points ! np) < 0)
                   (neighbours (CLUSTER_POINT_PROXIMITY cfg) points octree centroid))"
proof -
  from assms have "points_into points octree"
    by (auto simp: indexes_def points_into_def list_all_iff)
  moreover from assms have "octree_inv points octree" by (simp add: indexes_def)
  ultimately show ?thesis
    by (simp add: centroidNeighbours_def Let_def searchNeighbors_filter neighbours_def)
qed

lemma neighbours_props:
  assumes "indexes points octree"
  shows "distinct (neighbours r points octree c)"
    "set (neighbours r points octree c) = {i. i < length points \<and> distance3D (points ! i) c \<le> r}"
  using assms by (auto simp: neighbours_def indexes_def)

lemma retagged_refl: "retagged c {} ps ps"
  by (simp add: retagged_def)

lemma retagged_update:
  assumes "retagged c S ps qs" "j < length ps"
  shows "retagged c (insert j S) ps (qs[j := setClusterID c (qs ! j)])"
  using assms by (auto simp: retagged_def nth_list_update setClusterID_def)

lemma absorb_result:
  assumes "\<forall>j \<in> set js. j < length points0" "retagged c S points0 points"
  shows "\<exists>points' seeds'.
           absorb c js (points, seeds, cps) = (points', seeds', cps @ js) \<and>
           set seeds' \<subseteq> set seeds \<union> set js \<and>
           retagged c (S \<union> set js) points0 points'"
  using assms
proof (induction js arbitrary: points seeds cps S)
  case Nil
  then show ?case by simp
next
  case (Cons j js)
  let ?p = "points[j := setClusterID c (points ! j)]"
  let ?s = "if getClusterID (points ! j) = cUnclassified then seeds @ [j] else seeds"
  have r: "retagged c (insert j S) points0 ?p"
    using retagged_update[OF Cons.prems(2)] Cons.prems(1) by simp
  have "\<forall>j \<in> set js. j < length points0" using Cons.prems(1) by simp
  from Cons.IH[OF this r, of ?s "cps @ [j]"]
  obtain points' seeds' where
    "absorb c js (?p, ?s, cps @ [j]) = (points', seeds', (cps @ [j]) @ js)"
    "set seeds' \<subseteq> set ?s \<union> set js" "retagged c (insert j S \<union> set js) points0 points'"
    by blast
  then show ?case by (auto split: if_splits)
qed

lemma mark_seeds_result:
  assumes "\<forall>j \<in> set js. j < length points0" "retagged c S points0 points"
  shows "\<exists>points' icp'.
           mark_seeds c centroid js index icp points = (points', icp') \<and>
           (icp' = icp \<or> (index \<le> icp' \<and> icp' < index + length js)) \<and>
           retagged c (S \<union> set js) points0 points'"
  using assms
proof (induction js arbitrary: points index icp S)
  case Nil
  then show ?case by simp
next
  case (Cons j js)
  let ?p = "points[j := setClusterID c (points ! j)]"
  let ?i = "if point_eq (?p ! j) (?p ! centroid) then index else icp"
  have r: "retagged c (insert j S) points0 ?p"
    using retagged_update[OF Cons.prems(2)] Cons.prems(1) by simp
  have "\<forall>j \<in> set js. j < length points0" using Cons.prems(1) by simp
  from Cons.IH[OF this r, of "index + 1" ?i]
  obtain points' icp' where
    "mark_seeds c centroid js (index + 1) ?i ?p = (points', icp')"
    "icp' = ?i \<or> (index + 1 \<le> icp' \<and> icp' < index + 1 + length js)"
    "retagged c (insert j S \<union> set js) points0 points'"
    by blast
  then show ?case by (auto simp: Let_def split: if_splits)
qed

lemma retagged_tag:
  assumes "retagged (int k) S points0 points" "i < length points0"
  shows "i \<in> S \<Longrightarrow> getClusterID (points ! i) = int k"
    "i \<notin> S \<Longrightarrow> points ! i = points0 ! i"
  using assms by (simp_all add: retagged_def setClusterID_def)

lemma unassigned_neighbours:
  assumes idx: "indexes points0 octree"
    and rt: "retagged (int k) S points0 points"
    and js: "js = filter (\<lambda>np. getClusterID (points ! np) < 0) (neighbours r points octree c)"
  shows "distinct js" "\<forall>j \<in> set js. j < length points0 \<and> j \<notin> S \<and> getClusterID (points0 ! j) < 0"
proof -
  have ix: "indexes points octree" using indexes_retagged[OF idx rt] .
  have len: "length points = length points0" using rt by (simp add: retagged_def)
  show "distinct js" using neighbours_props(1)[OF ix] js by simp
  show "\<forall>j \<in> set js. j < length points0 \<and> j \<notin> S \<and> getClusterID (points0 ! j) < 0"
  proof
    fix j assume "j \<in> set js"
    then have j: "j < length points0" "getClusterID (points ! j) < 0"
      using js neighbours_props(2)[OF ix] len by auto
    have n: "j \<notin> S" using retagged_tag(1)[OF rt j(1)] j(2) by auto
    with retagged_tag(2)[OF rt j(1)] j show "j < length points0 \<and> j \<notin> S \<and> getClusterID (points0 ! j) < 0"
      by simp
  qed
qed

lemma expand_seeds_result:
  assumes idx: "indexes points0 octree"
  shows "retagged (int k) (set cps) points0 points \<Longrightarrow> distinct cps \<Longrightarrow>
         \<forall>i \<in> set cps. i < length points0 \<and> getClusterID (points0 ! i) < 0 \<Longrightarrow>
         \<forall>s \<in> set seeds. s < length points0 \<Longrightarrow>
         \<exists>points' cps'.
           expand_seeds cfg octree k i (points, seeds, cps) = Some (points', cps') \<and>
           retagged (int k) (set cps') points0 points' \<and> distinct cps' \<and>
           (\<forall>i \<in> set cps'. i < length points0 \<and> getClusterID (points0 ! i) < 0) \<and>
           set cps \<subseteq> set cps'"
proof (induction "unclassified points + (length seeds - i)" arbitrary: i points seeds cps
    rule: less_induct)
  case less
  note rt = less.prems(1) and dc = less.prems(2) and cp = less.prems(3) and sd = less.prems(4)
  have len: "length points = length points0" using rt by (simp add: retagged_def)
  show ?case
  proof (cases "i < length seeds")
    case False
    then show ?thesis using rt dc cp by (subst expand_seeds.simps) simp
  next
    case True
    then have si: "seeds ! i < length points" using sd len by simp
    have ix: "indexes points octree" using indexes_retagged[OF idx rt] .
    define nb where "nb = neighbours (CLUSTER_POINT_PROXIMITY cfg) points octree (points ! (seeds ! i))"
    define js where "js = filter (\<lambda>np. getClusterID (points ! np) < 0) nb"
    have cn: "centroidNeighbours cfg (points ! (seeds ! i)) points octree = Some (length nb, js)"
      using centroidNeighbours_indexes[OF ix] by (simp add: nb_def js_def)
    show ?thesis
    proof (cases "MIN_CLUSTER_POINTS cfg \<le> length nb")
      case False
      have m: "unclassified points + (length seeds - (i + 1)) < unclassified points + (length seeds - i)"
        using True by simp
      from less.hyps[OF m rt dc cp sd]
      show ?thesis using True si cn False by (subst expand_seeds.simps) simp
    next
      case core: True
      have js_eq: "js = filter (\<lambda>np. getClusterID (points ! np) < 0)
                     (neighbours (CLUSTER_POINT_PROXIMITY cfg) points octree (points ! (seeds ! i)))"
        by (simp add: js_def nb_def)
      have jp: "distinct js"
        "\<forall>j \<in> set js. j < length points0 \<and> j \<notin> set cps \<and> getClusterID (points0 ! j) < 0"
        using unassigned_neighbours[OF idx rt js_eq] by simp_all
      then have jr: "\<forall>j \<in> set js. j < length points0" by simp
      from absorb_result[OF jr rt, of seeds cps]
      obtain points' seeds' where
        a: "absorb (int k) js (points, seeds, cps) = (points', seeds', cps @ js)"
        and ss: "set seeds' \<subseteq> set seeds \<union> set js"
        and rt': "retagged (int k) (set cps \<union> set js) points0 points'"
        by blast
      have "int k \<noteq> cUnclassified" by (simp add: cUnclassified_def)
      from absorb_measure[OF _ this a] jr len
      have "unclassified points' + length seeds' = unclassified points + length seeds"
        "length seeds \<le> length seeds'" by simp_all
      then have m: "unclassified points' + (length seeds' - (i + 1))
                    < unclassified points + (length seeds - i)"
        using True by simp
      have rt2: "retagged (int k) (set (cps @ js)) points0 points'" using rt' by simp
      have dc2: "distinct (cps @ js)" using dc jp by auto
      have cp2: "\<forall>i \<in> set (cps @ js). i < length points0 \<and> getClusterID (points0 ! i) < 0"
        using cp jp by auto
      have sd2: "\<forall>s \<in> set seeds'. s < length points0" using ss sd jr by auto
      from less.hyps[OF m rt2 dc2 cp2 sd2]
      obtain points2 cps2 where
        "expand_seeds cfg octree k (i + 1) (points', seeds', cps @ js) = Some (points2, cps2)"
        "retagged (int k) (set cps2) points0 points2" "distinct cps2"
        "\<forall>i \<in> set cps2. i < length points0 \<and> getClusterID (points0 ! i) < 0"
        "set (cps @ js) \<subseteq> set cps2"
        by blast
      then show ?thesis using True si cn core a
        by (subst expand_seeds.simps) auto
    qed
  qed
qed

lemma distance3D_self: "distance3D p p = 0"
  by (simp add: distance3D_def)

lemma set_erase: "set (erase k v) \<subseteq> set v"
  by (auto simp: erase_def dest: in_set_takeD in_set_dropD)

lemma retagged_single:
  "i < length ps \<Longrightarrow> retagged c {i} ps (ps[i := setClusterID c (ps ! i)])"
  by (auto simp: retagged_def nth_list_update)

lemma expandCluster_result:
  assumes idx: "indexes points octree"
    and c: "centroid < length points" "getClusterID (points ! centroid) = cUnclassified"
    and r: "0 \<le> CLUSTER_POINT_PROXIMITY cfg"
  shows "expandCluster cfg centroid k points octree
           = Some ((False, []), points[centroid := setClusterID cNoise (points ! centroid)]) \<or>
         (\<exists>cps points'.
            expandCluster cfg centroid k points octree = Some ((True, cps), points') \<and>
            retagged (int k) (set cps) points points' \<and> distinct cps \<and>
            (\<forall>i \<in> set cps. i < length points \<and> getClusterID (points ! i) < 0) \<and>
            centroid \<in> set cps)"
proof -
  define nb where "nb = neighbours (CLUSTER_POINT_PROXIMITY cfg) points octree (points ! centroid)"
  define js where "js = filter (\<lambda>np. getClusterID (points ! np) < 0) nb"
  have cn: "centroidNeighbours cfg (points ! centroid) points octree = Some (length nb, js)"
    using centroidNeighbours_indexes[OF idx] by (simp add: nb_def js_def)
  have js_eq: "js = filter (\<lambda>np. getClusterID (points ! np) < 0)
                     (neighbours (CLUSTER_POINT_PROXIMITY cfg) points octree (points ! centroid))"
    by (simp add: js_def nb_def)
  have jp: "distinct js"
    "\<forall>j \<in> set js. j < length points \<and> getClusterID (points ! j) < 0"
    using unassigned_neighbours[OF idx retagged_refl js_eq] by simp_all
  have "set nb = {i. i < length points \<and>
                      distance3D (points ! i) (points ! centroid) \<le> CLUSTER_POINT_PROXIMITY cfg}"
    unfolding nb_def by (rule neighbours_props(2)[OF idx])
  then have "centroid \<in> set nb"
    using c(1) r by (simp add: distance3D_self)
  then have cj: "centroid \<in> set js" using c(2) by (simp add: js_def cUnclassified_def)
  show ?thesis
  proof (cases "length js < MIN_CLUSTER_POINTS cfg")
    case True
    then show ?thesis using cn by (simp add: expandCluster_def)
  next
    case False
    have jr: "\<forall>j \<in> set js. j < length points" using jp by simp
    have "\<exists>points' icp'.
           mark_seeds (int k) centroid js 0 0 points = (points', icp') \<and>
           (icp' = 0 \<or> (0 \<le> icp' \<and> icp' < 0 + length js)) \<and>
           retagged (int k) ({} \<union> set js) points points'"
      by (rule mark_seeds_result[OF jr retagged_refl])
    then obtain points1 icp where
      ms: "mark_seeds (int k) centroid js 0 0 points = (points1, icp)"
      and ic: "icp = 0 \<or> (0 \<le> icp \<and> icp < 0 + length js)"
      and rt: "retagged (int k) ({} \<union> set js) points points1"
      by blast
    have "js \<noteq> []" using cj by auto
    with ic have il: "icp < length js" by auto
    have rt1: "retagged (int k) (set js) points points1" using rt by simp
    have sd: "\<forall>s \<in> set (erase icp js). s < length points"
    proof
      fix s assume "s \<in> set (erase icp js)"
      then have "s \<in> set js" using set_erase[of icp js] by (rule subsetD[rotated])
      then show "s < length points" using jr by simp
    qed
    have cp: "\<forall>i \<in> set js. i < length points \<and> getClusterID (points ! i) < 0" using jp by simp
    have "\<exists>points' cps'.
           expand_seeds cfg octree k 0 (points1, erase icp js, js) = Some (points', cps') \<and>
           retagged (int k) (set cps') points points' \<and> distinct cps' \<and>
           (\<forall>i \<in> set cps'. i < length points \<and> getClusterID (points ! i) < 0) \<and>
           set js \<subseteq> set cps'"
      by (rule expand_seeds_result[OF idx rt1 jp(1) cp sd])
    then obtain points2 cps2 where
      es: "expand_seeds cfg octree k 0 (points1, erase icp js, js) = Some (points2, cps2)"
      and post: "retagged (int k) (set cps2) points points2" "distinct cps2"
      "\<forall>i \<in> set cps2. i < length points \<and> getClusterID (points ! i) < 0"
      "set js \<subseteq> set cps2"
      by blast
    have "expandCluster cfg centroid k points octree = Some ((True, cps2), points2)"
      unfolding expandCluster_def cn using False ms il es by (simp add: Let_def)
    moreover have "centroid \<in> set cps2" using cj post(4) by blast
    ultimately have "expandCluster cfg centroid k points octree = Some ((True, cps2), points2) \<and>
            retagged (int k) (set cps2) points points2 \<and> distinct cps2 \<and>
            (\<forall>i \<in> set cps2. i < length points \<and> getClusterID (points ! i) < 0) \<and>
            centroid \<in> set cps2"
      using post by simp
    then show ?thesis by blast
  qed
qed

lemma clustered_noise:
  assumes g: "clustered points found" and c: "c < length points"
    "getClusterID (points ! c) = cUnclassified"
  shows "clustered (points[c := setClusterID cNoise (points ! c)]) found"
proof -
  let ?p = "points[c := setClusterID cNoise (points ! c)]"
  from g have g1: "distinct (concat found)"
    and g2: "\<And>k i. k < length found \<Longrightarrow> i \<in> set (found ! k) \<Longrightarrow>
                i < length points \<and> getClusterID (points ! i) = int k"
    and g3: "\<And>i. i < length points \<Longrightarrow>
        getClusterID (points ! i) = cUnclassified \<or> getClusterID (points ! i) = cNoise \<or>
        (\<exists>k < length found. getClusterID (points ! i) = int k \<and> i \<in> set (found ! k))"
    by (simp_all add: clustered_def)
  have A: "\<forall>k < length found. \<forall>i \<in> set (found ! k). i < length ?p \<and> getClusterID (?p ! i) = int k"
  proof (intro allI impI ballI)
    fix k i assume k: "k < length found" and i: "i \<in> set (found ! k)"
    have "i \<noteq> c" using g2[OF k i] c by (auto simp: cUnclassified_def)
    then show "i < length ?p \<and> getClusterID (?p ! i) = int k" using g2[OF k i] by simp
  qed
  have B: "\<forall>i < length ?p.
        getClusterID (?p ! i) = cUnclassified \<or> getClusterID (?p ! i) = cNoise \<or>
        (\<exists>k < length found. getClusterID (?p ! i) = int k \<and> i \<in> set (found ! k))"
  proof (intro allI impI)
    fix i assume i: "i < length ?p"
    show "getClusterID (?p ! i) = cUnclassified \<or> getClusterID (?p ! i) = cNoise \<or>
        (\<exists>k < length found. getClusterID (?p ! i) = int k \<and> i \<in> set (found ! k))"
    proof (cases "i = c")
      case True
      then show ?thesis using c by (simp add: setClusterID_def)
    next
      case False
      then show ?thesis using g3[of i] i by simp
    qed
  qed
  show ?thesis unfolding clustered_def by (rule conjI[OF g1 conjI[OF A B]])
qed

lemma clustered_new:
  assumes g: "clustered points found"
    and rt: "retagged (int (length found)) (set cps) points points'"
    and dc: "distinct cps"
    and cp: "\<forall>i \<in> set cps. i < length points \<and> getClusterID (points ! i) < 0"
  shows "clustered points' (found @ [cps])"
proof -
  from g have g1: "distinct (concat found)"
    and g2: "\<And>k i. k < length found \<Longrightarrow> i \<in> set (found ! k) \<Longrightarrow>
                i < length points \<and> getClusterID (points ! i) = int k"
    and g3: "\<And>i. i < length points \<Longrightarrow>
        getClusterID (points ! i) = cUnclassified \<or> getClusterID (points ! i) = cNoise \<or>
        (\<exists>k < length found. getClusterID (points ! i) = int k \<and> i \<in> set (found ! k))"
    by (simp_all add: clustered_def)
  have len: "length points' = length points" using rt by (simp add: retagged_def)
  have old: "i \<notin> set cps" if k: "k < length found" and i: "i \<in> set (found ! k)" for i k
  proof
    assume "i \<in> set cps"
    with cp have "getClusterID (points ! i) < 0" by simp
    with g2[OF k i] show False by simp
  qed
  have "set (concat found) \<inter> set cps = {}"
  proof (rule ccontr)
    assume "set (concat found) \<inter> set cps \<noteq> {}"
    then obtain i xs where ix: "i \<in> set cps" "xs \<in> set found" "i \<in> set xs" by auto
    from ix(2) obtain k where "k < length found" "xs = found ! k"
      by (auto simp: in_set_conv_nth)
    with old[of k i] ix show False by simp
  qed
  then have d: "distinct (concat (found @ [cps]))" using g1 dc by simp
  have A: "\<forall>k < length (found @ [cps]). \<forall>i \<in> set ((found @ [cps]) ! k).
             i < length points' \<and> getClusterID (points' ! i) = int k"
  proof (intro allI impI ballI)
    fix k i assume k: "k < length (found @ [cps])" and i: "i \<in> set ((found @ [cps]) ! k)"
    show "i < length points' \<and> getClusterID (points' ! i) = int k"
    proof (cases "k < length found")
      case True
      then have i': "i \<in> set (found ! k)" using i by (simp add: nth_append)
      have p: "i < length points" "getClusterID (points ! i) = int k"
        using g2[OF True i'] by simp_all
      have "points' ! i = points ! i"
        using retagged_tag(2)[OF rt p(1)] old[OF True i'] by simp
      then show ?thesis using p len by simp
    next
      case False
      then have kk: "k = length found" using k by simp
      then have i': "i \<in> set cps" using i by (simp add: nth_append)
      then have "i < length points" using cp by simp
      from retagged_tag(1)[OF rt this i'] this show ?thesis using len kk by simp
    qed
  qed
  have B: "\<forall>i < length points'.
        getClusterID (points' ! i) = cUnclassified \<or> getClusterID (points' ! i) = cNoise \<or>
        (\<exists>k < length (found @ [cps]). getClusterID (points' ! i) = int k \<and> i \<in> set ((found @ [cps]) ! k))"
  proof (intro allI impI)
    fix i assume i: "i < length points'"
    then have ip: "i < length points" using len by simp
    show "getClusterID (points' ! i) = cUnclassified \<or> getClusterID (points' ! i) = cNoise \<or>
        (\<exists>k < length (found @ [cps]). getClusterID (points' ! i) = int k \<and> i \<in> set ((found @ [cps]) ! k))"
    proof (cases "i \<in> set cps")
      case True
      have "getClusterID (points' ! i) = int (length found)"
        using retagged_tag(1)[OF rt ip True] .
      moreover have "i \<in> set ((found @ [cps]) ! length found)" using True by simp
      moreover have "length found < length (found @ [cps])" by simp
      ultimately show ?thesis by blast
    next
      case False
      have e: "points' ! i = points ! i" using retagged_tag(2)[OF rt ip False] .
      from g3[OF ip] consider
        "getClusterID (points ! i) = cUnclassified" | "getClusterID (points ! i) = cNoise"
        | k where "k < length found" "getClusterID (points ! i) = int k" "i \<in> set (found ! k)"
        by blast
      then show ?thesis
      proof cases
        case 1 then show ?thesis using e by simp
      next
        case 2 then show ?thesis using e by simp
      next
        case 3
        then have "k < length (found @ [cps])" "i \<in> set ((found @ [cps]) ! k)"
          by (simp_all add: nth_append)
        with 3(2) e show ?thesis by auto
      qed
    qed
  qed
  show ?thesis unfolding clustered_def by (rule conjI[OF d conjI[OF A B]])
qed

lemma clusters_loop_result:
  assumes r: "0 \<le> CLUSTER_POINT_PROXIMITY cfg"
  shows "indexes points octree \<Longrightarrow> clustered points found \<Longrightarrow>
         \<forall>p \<in> set rest. p < length points \<Longrightarrow>
         \<exists>found' points'.
           clusters_loop cfg octree rest (length found) points found = Some (found', points') \<and>
           clustered points' found' \<and> length points' = length points \<and>
           (\<forall>i < length points. getClusterID (points' ! i) = cUnclassified \<longrightarrow>
              getClusterID (points ! i) = cUnclassified \<and> i \<notin> set rest)"
proof (induction rest arbitrary: points found)
  case Nil
  then show ?case by simp
next
  case (Cons p rest)
  note idx = Cons.prems(1) and g = Cons.prems(2)
  have p: "p < length points" and rest: "\<forall>q \<in> set rest. q < length points"
    using Cons.prems(3) by simp_all
  show ?case
  proof (cases "getClusterID (points ! p) = cUnclassified")
    case False
    from Cons.IH[OF idx g rest] obtain found' points' where
      l: "clusters_loop cfg octree rest (length found) points found = Some (found', points')"
      and post: "clustered points' found'" "length points' = length points"
      "\<forall>i < length points. getClusterID (points' ! i) = cUnclassified \<longrightarrow>
              getClusterID (points ! i) = cUnclassified \<and> i \<notin> set rest"
      by blast
    have "\<forall>i < length points. getClusterID (points' ! i) = cUnclassified \<longrightarrow>
              getClusterID (points ! i) = cUnclassified \<and> i \<notin> set (p # rest)"
      using post(3) False by auto
    then show ?thesis using l post False by simp
  next
    case True
    from expandCluster_result[OF idx p True r, of "length found"]
    consider
      (noise) "expandCluster cfg p (length found) points octree
           = Some ((False, []), points[p := setClusterID cNoise (points ! p)])"
      | (cluster) cps points1 where
        "expandCluster cfg p (length found) points octree = Some ((True, cps), points1)"
        "retagged (int (length found)) (set cps) points points1" "distinct cps"
        "\<forall>i \<in> set cps. i < length points \<and> getClusterID (points ! i) < 0"
        "p \<in> set cps"
      by blast
    then show ?thesis
    proof cases
      case noise
      let ?p1 = "points[p := setClusterID cNoise (points ! p)]"
      have idx1: "indexes ?p1 octree"
        using indexes_retagged[OF idx retagged_single[OF p]] .
      have g1: "clustered ?p1 found" using clustered_noise[OF g p True] .
      have rest1: "\<forall>q \<in> set rest. q < length ?p1" using rest by simp
      from Cons.IH[OF idx1 g1 rest1] obtain found' points' where
        l: "clusters_loop cfg octree rest (length found) ?p1 found = Some (found', points')"
        and post: "clustered points' found'" "length points' = length ?p1"
        "\<forall>i < length ?p1. getClusterID (points' ! i) = cUnclassified \<longrightarrow>
              getClusterID (?p1 ! i) = cUnclassified \<and> i \<notin> set rest"
        by blast
      have u: "getClusterID (points ! i) = cUnclassified \<and> i \<notin> set (p # rest)"
        if "i < length points" "getClusterID (points' ! i) = cUnclassified" for i
      proof -
        from post(3) that have a: "getClusterID (?p1 ! i) = cUnclassified" "i \<notin> set rest" by simp_all
        have "i \<noteq> p"
        proof
          assume "i = p"
          with a(1) p show False by (simp add: setClusterID_def cNoise_def cUnclassified_def)
        qed
        with a show ?thesis by simp
      qed
      show ?thesis using l post(1,2) u True noise by simp
    next
      case cluster
      have idx1: "indexes points1 octree" using indexes_retagged[OF idx cluster(2)] .
      have g1: "clustered points1 (found @ [cps])"
        using clustered_new[OF g cluster(2,3,4)] .
      have len1: "length points1 = length points" using cluster(2) by (simp add: retagged_def)
      have rest1: "\<forall>q \<in> set rest. q < length points1" using rest len1 by simp
      from Cons.IH[OF idx1 g1 rest1] obtain found' points' where
        l: "clusters_loop cfg octree rest (length (found @ [cps])) points1 (found @ [cps])
              = Some (found', points')"
        and post: "clustered points' found'" "length points' = length points1"
        "\<forall>i < length points1. getClusterID (points' ! i) = cUnclassified \<longrightarrow>
              getClusterID (points1 ! i) = cUnclassified \<and> i \<notin> set rest"
        by blast
      have u: "getClusterID (points ! i) = cUnclassified \<and> i \<notin> set (p # rest)"
        if i: "i < length points" and "getClusterID (points' ! i) = cUnclassified" for i
      proof -
        from post(3) that len1
        have a: "getClusterID (points1 ! i) = cUnclassified" "i \<notin> set rest" by simp_all
        have n: "i \<notin> set cps"
        proof
          assume "i \<in> set cps"
          from retagged_tag(1)[OF cluster(2) i this] a(1) show False
            by (simp add: cUnclassified_def)
        qed
        then have "points1 ! i = points ! i" using retagged_tag(2)[OF cluster(2) i] by simp
        moreover have "i \<noteq> p" using n cluster(5) by blast
        ultimately show ?thesis using a by simp
      qed
      show ?thesis using l post(1,2) u True cluster(1) len1 by simp
    qed
  qed
qed

lemma indexes_Octree_of: "indexes points (Octree_of ocfg points)"
  by (simp add: indexes_def Octree_of_inv Octree_of_indices)

text \<open>
  Claim C2, as amended.  For every input vector whose points all enter as \<open>cUnclassified\<close> or
  \<open>cNoise\<close>, and a non-negative radius, \<open>clusters\<close> returns; the index lists it returns are
  pairwise disjoint and free of duplicates; afterwards every point is either \<open>cNoise\<close> or
  carries the id of the one returned cluster that lists it, and cluster \<open>k\<close> lists only points
  tagged \<open>k\<close>; no point is left \<open>cUnclassified\<close>, \<open>cCorePoint\<close> or \<open>cBorderPoint\<close>.
\<close>

theorem clusters_partition:
  assumes "\<forall>p \<in> set points. getClusterID p = cUnclassified \<or> getClusterID p = cNoise"
    and "0 \<le> CLUSTER_POINT_PROXIMITY cfg"
  shows "\<exists>found points'.
           clusters cfg points = Some (found, points') \<and> length points' = length points \<and>
           distinct (concat found) \<and>
           (\<forall>k < length found. \<forall>i \<in> set (found ! k).
              i < length points \<and> getClusterID (points' ! i) = int k) \<and>
           (\<forall>i < length points.
              getClusterID (points' ! i) = cNoise \<or>
              (\<exists>k < length found. getClusterID (points' ! i) = int k \<and> i \<in> set (found ! k))) \<and>
           (\<forall>i < length points.
              getClusterID (points' ! i) \<noteq> cUnclassified \<and>
              getClusterID (points' ! i) \<noteq> cCorePoint \<and>
              getClusterID (points' ! i) \<noteq> cBorderPoint)"
proof -
  have g0: "clustered points []" using assms(1) by (simp add: clustered_def)
  have r0: "\<forall>p \<in> set [0..<length points]. p < length points" by simp
  from clusters_loop_result[OF assms(2) indexes_Octree_of g0 r0, of "octree_config cfg"]
  obtain found points' where
    l: "clusters cfg points = Some (found, points')"
    and g: "clustered points' found" and len: "length points' = length points"
    and u: "\<forall>i < length points. getClusterID (points' ! i) = cUnclassified \<longrightarrow>
              getClusterID (points ! i) = cUnclassified \<and> i \<notin> set [0..<length points]"
    unfolding clusters_def by auto
  from g len have g1: "distinct (concat found)"
    and g2: "\<forall>k < length found. \<forall>i \<in> set (found ! k).
              i < length points \<and> getClusterID (points' ! i) = int k"
    and g3: "\<And>i. i < length points \<Longrightarrow>
        getClusterID (points' ! i) = cUnclassified \<or> getClusterID (points' ! i) = cNoise \<or>
        (\<exists>k < length found. getClusterID (points' ! i) = int k \<and> i \<in> set (found ! k))"
    by (simp_all add: clustered_def)
  have nu: "getClusterID (points' ! i) \<noteq> cUnclassified" if "i < length points" for i
    using u that by auto
  have A: "\<forall>i < length points.
              getClusterID (points' ! i) = cNoise \<or>
              (\<exists>k < length found. getClusterID (points' ! i) = int k \<and> i \<in> set (found ! k))"
    using g3 nu by blast
  have B: "\<forall>i < length points.
              getClusterID (points' ! i) \<noteq> cUnclassified \<and>
              getClusterID (points' ! i) \<noteq> cCorePoint \<and>
              getClusterID (points' ! i) \<noteq> cBorderPoint"
  proof (intro allI impI)
    fix i assume i: "i < length points"
    from A i have "getClusterID (points' ! i) = cNoise \<or> 0 \<le> getClusterID (points' ! i)"
      by auto
    then show "getClusterID (points' ! i) \<noteq> cUnclassified \<and>
              getClusterID (points' ! i) \<noteq> cCorePoint \<and>
              getClusterID (points' ! i) \<noteq> cBorderPoint"
      by (auto simp: cNoise_def cUnclassified_def cCorePoint_def cBorderPoint_def)
  qed
  show ?thesis using l len g1 g2 A B by blast
qed

lemma Rep_posreal_1: "Rep_posreal (Abs_posreal 1) = 1"
  by (simp add: Abs_posreal_inverse)

lemma line_octree:
  "Octree_of (octree_config line_config) line_points
     = Leaf (mkPoint (11 / 10) 0 0) (17 / 10) [0, 1, 2, 3, 4, 5, 6]"
  by (simp add: octree_config_def Octree_of_def line_config_def line_points_def BBox_of_def
      bbox_step_def mkPoint_def setX_def setY_def setZ_def point_minus_def Rep_posreal_1
      build_node.simps upt_rec)

lemmas dbscan_eval =
  expandCluster_def centroidNeighbours_def points_into_def searchNeighbors_def distance3D_def
  setClusterID_def cUnclassified_def cNoise_def cCorePoint_def point_eq_exact erase_def
  expand_seeds.simps Let_def mkPoint_def upt_rec

theorem clusters_partition_witness:
  "set (map getClusterID line_points) = {cUnclassified} \<and>
   0 \<le> CLUSTER_POINT_PROXIMITY line_config \<and>
   (\<exists>found points'.
      clusters line_config line_points = Some (found, points') \<and>
      length points' = length line_points \<and> distinct (concat found) \<and>
      (\<forall>k < length found. \<forall>i \<in> set (found ! k).
         i < length line_points \<and> getClusterID (points' ! i) = int k) \<and>
      (\<forall>i < length line_points.
         getClusterID (points' ! i) = cNoise \<or>
         (\<exists>k < length found. getClusterID (points' ! i) = int k \<and> i \<in> set (found ! k))) \<and>
      (\<forall>i < length line_points.
         getClusterID (points' ! i) \<noteq> cUnclassified \<and>
         getClusterID (points' ! i) \<noteq> cCorePoint \<and>
         getClusterID (points' ! i) \<noteq> cBorderPoint))"
proof -
  have h1: "\<forall>p \<in> set line_points. getClusterID p = cUnclassified \<or> getClusterID p = cNoise"
    by (simp add: line_points_def mkPoint_def)
  have h2: "0 \<le> CLUSTER_POINT_PROXIMITY line_config"
    by (simp add: line_config_def)
  have h0: "set (map getClusterID line_points) = {cUnclassified}"
    by (simp add: line_points_def mkPoint_def)
  from clusters_partition [OF h1 h2] h0 h2 show ?thesis by (intro conjI)
qed

text \<open>
  Claim C2 as stated speaks of every input vector.  The loop of \<open>clusters\<close> only expands
  points whose tag is \<open>cUnclassified\<close>: a point that enters with the tag \<open>cCorePoint\<close> and
  has no neighbour keeps it.
\<close>

theorem clusters_keeps_foreign_tag:
  "clusters line_config [setClusterID cCorePoint (mkPoint 0 0 0)]
     = Some ([], [setClusterID cCorePoint (mkPoint 0 0 0)]) \<and>
   getClusterID (setClusterID cCorePoint (mkPoint 0 0 0)) = cCorePoint \<and>
   cCorePoint \<noteq> cNoise"
  by (simp add: clusters_def setClusterID_def mkPoint_def cCorePoint_def cUnclassified_def
      cNoise_def)

text \<open>
  Claim C3 says that a fresh centroid becomes noise exactly when its sphere holds fewer
  than \<open>MIN_CLUSTER_POINTS\<close> points of the array, whatever their tags.  On the seven points
  the sphere of point 4 holds the four points 3, 4, 5 and 6, and the minimum is 4; point
  3 already belongs to cluster 0 when point 4 is expanded, the centroid test counts only
  the three neighbours with a negative tag, and point 4 becomes noise.
\<close>

theorem clusters_noise_despite_full_sphere:
  "clusters line_config line_points
     = Some ([[0, 1, 2, 3]],
             map2 setClusterID [0, 0, 0, 0, cNoise, cNoise, cNoise] line_points) \<and>
   linear_scan line_points (line_points ! 4) (CLUSTER_POINT_PROXIMITY line_config) = [3, 4, 5, 6] \<and>
   MIN_CLUSTER_POINTS line_config = 4"
proof -
  have "clusters line_config line_points
     = Some ([[0, 1, 2, 3]],
             map2 setClusterID [0, 0, 0, 0, cNoise, cNoise, cNoise] line_points)"
    unfolding clusters_def line_octree
    by (simp add: line_config_def line_points_def dbscan_eval)
  moreover have "linear_scan line_points (line_points ! 4) (CLUSTER_POINT_PROXIMITY line_config)
                   = [3, 4, 5, 6]"
    by (simp add: linear_scan_def line_config_def line_points_def distance3D_def mkPoint_def upt_rec)
  moreover have "MIN_CLUSTER_POINTS line_config = 4" by (simp add: line_config_def)
  ultimately show ?thesis by (intro conjI)
qed

section \<open>Properties of normal-coherent DBSCAN\<close>

lemma module_opposite: "module (point_times v (- 1)) = module v"
  by (simp add: module_def point_times_def mkPoint_def)

lemma scalarProduct_opposite:
  "scalarProduct (point_times u (- 1)) v = - scalarProduct u v"
  "scalarProduct u (point_times v (- 1)) = - scalarProduct u v"
  by (simp_all add: scalarProduct_def point_times_def mkPoint_def)

lemma point_neq_opposite: "point_neq (point_times n (- 1)) Point0 = point_neq n Point0"
  by (simp add: point_neq_def point_eq_exact point_times_def mkPoint_def Point0_def)

lemma cauchy_schwarz3:
  fixes a1 a2 a3 b1 b2 b3 :: real
  shows "(a1 * b1 + a2 * b2 + a3 * b3)\<^sup>2 \<le> (a1 * a1 + a2 * a2 + a3 * a3) * (b1 * b1 + b2 * b2 + b3 * b3)"
proof -
  have "(a1 * a1 + a2 * a2 + a3 * a3) * (b1 * b1 + b2 * b2 + b3 * b3) - (a1 * b1 + a2 * b2 + a3 * b3)\<^sup>2
        = (a1 * b2 - a2 * b1)\<^sup>2 + (a1 * b3 - a3 * b1)\<^sup>2 + (a2 * b3 - a3 * b2)\<^sup>2"
    by (simp add: power2_eq_square algebra_simps)
  moreover have "0 \<le> (a1 * b2 - a2 * b1)\<^sup>2 + (a1 * b3 - a3 * b1)\<^sup>2 + (a2 * b3 - a3 * b2)\<^sup>2"
    by simp
  ultimately show ?thesis by linarith
qed

lemma abs_scalarProduct_le: "\<bar>scalarProduct u v\<bar> \<le> module u * module v"
proof -
  have "\<bar>scalarProduct u v\<bar> = sqrt ((scalarProduct u v)\<^sup>2)" by simp
  also have "\<dots> \<le> sqrt ((getX u * getX u + getY u * getY u + getZ u * getZ u) *
                        (getX v * getX v + getY v * getY v + getZ v * getZ v))"
    unfolding scalarProduct_def by (rule real_sqrt_le_mono) (rule cauchy_schwarz3)
  also have "\<dots> = module u * module v" by (simp add: module_def real_sqrt_mult)
  finally show ?thesis .
qed

lemma module_nonneg: "0 \<le> module v"
  by (simp add: module_def)

lemma cosine_bounds:
  assumes "module u * module v \<noteq> 0"
  shows "- 1 \<le> scalarProduct u v / (module u * module v)"
    "scalarProduct u v / (module u * module v) \<le> 1"
proof -
  have p: "0 < module u * module v"
    using assms module_nonneg[of u] module_nonneg[of v] by (simp add: zero_less_mult_iff less_le)
  have a: "- (module u * module v) \<le> scalarProduct u v" "scalarProduct u v \<le> module u * module v"
    using abs_scalarProduct_le[of u v] by (simp_all add: abs_le_iff)
  show "- 1 \<le> scalarProduct u v / (module u * module v)"
    using a(1) p by (simp add: pos_le_divide_eq)
  show "scalarProduct u v / (module u * module v) \<le> 1"
    using a(2) p by (simp add: pos_divide_le_eq)
qed

lemma vectorialAngle_opposite:
  "vectorialAngle (point_times u (- 1)) v = map_option (\<lambda>a. pi - a) (vectorialAngle u v)"
  "vectorialAngle u (point_times v (- 1)) = map_option (\<lambda>a. pi - a) (vectorialAngle u v)"
  using cosine_bounds[of u v]
  by (simp_all add: vectorialAngle_def module_opposite scalarProduct_opposite arccos_minus)

lemma vectorialAngle_both_opposite:
  "vectorialAngle (point_times u (- 1)) (point_times v (- 1)) = vectorialAngle u v"
  by (simp add: vectorialAngle_def module_opposite scalarProduct_opposite)

text \<open>
  Claim C4, as amended.  The decision of the neighbour test is unchanged when the three
  vectors it compares (the normal of the searched point, the mean normal and the normal of
  the candidate) are all replaced by their opposites.  Replacing one vector of a pair by
  its opposite replaces their angle \<open>a\<close> by \<open>\<pi> - a\<close>, so the decision does depend on the
  sign of a single normal.
\<close>

theorem normal_accepts_opposite:
  "normal_accepts cfg (point_times n_centroid (- 1)) (point_times meanNormal (- 1)) (point_times n (- 1))
     = normal_accepts cfg n_centroid meanNormal n \<and>
   vectorialAngle (point_times u (- 1)) v = map_option (\<lambda>a. pi - a) (vectorialAngle u v) \<and>
   vectorialAngle u (point_times v (- 1)) = map_option (\<lambda>a. pi - a) (vectorialAngle u v)"
proof -
  have "normal_accepts cfg (point_times n_centroid (- 1)) (point_times meanNormal (- 1))
          (point_times n (- 1)) = normal_accepts cfg n_centroid meanNormal n"
    by (simp add: normal_accepts_def vectorialAngle_both_opposite point_neq_opposite)
  then show ?thesis by (simp add: vectorialAngle_opposite)
qed

lemma arccos_ninth: "0 \<le> arccos (1 / 9)" "arccos (1 / 9) < pi"
  using arccos_lt_bounded[of "1 / 9"] by simp_all

text \<open>
  Claim C4 as stated says that negating either normal never changes the decision.  With
  the bounds of \<open>face_config\<close> (all below \<open>\<pi>\<close>) the normal \<open>(0, 0, 1)\<close> is accepted next to
  itself, and its opposite \<open>(0, 0, -1)\<close> is rejected: the angle is \<open>\<pi>\<close>.
\<close>

theorem normal_accepts_sign_matters:
  "point_neq (mkPoint 0 0 1) Point0 \<and> point_neq (point_times (mkPoint 0 0 1) (- 1)) Point0 \<and>
   normal_accepts face_config (mkPoint 0 0 1) (mkPoint 0 0 1) (mkPoint 0 0 1) \<and>
   \<not> normal_accepts face_config (mkPoint 0 0 1) (mkPoint 0 0 1) (point_times (mkPoint 0 0 1) (- 1))"
  using arccos_ninth
  by (simp add: normal_accepts_def vectorialAngle_def angle_le_def module_def scalarProduct_def
      point_times_def mkPoint_def point_neq_def point_eq_exact Point0_def face_config_def)












lemmas normals_eval =
  expandNormalCluster_def centroidNormalNeighbours_def normal_accepts_def vectorialAngle_def
  angle_le_def module_def scalarProduct_def mean_def point_neq_def Point0_def
  expand_normal_seeds.simps



lemma absorb_clusterPoints:
  "\<exists>points' seeds'. absorb c js (points, seeds, cps) = (points', seeds', cps @ js)"
proof (induction js arbitrary: points seeds cps)
  case Nil
  show ?case by simp
next
  case (Cons j js)
  from Cons[of "points[j := setClusterID c (points ! j)]"
      "if getClusterID (points ! j) = cUnclassified then seeds @ [j] else seeds" "cps @ [j]"]
  show ?case by simp
qed

lemma expand_normal_seeds_per_seed:
  "cns = map (\<lambda>j. nv ! j) cps \<Longrightarrow>
   expand_normal_seeds cfg octree nv k i (points, seeds, cps, cns)
     = expand_faces_per_seed cfg octree nv k i (points, seeds, cps)"
proof (induction "unclassified points + (length seeds - i)" arbitrary: i points seeds cps cns
    rule: less_induct)
  case less
  note inv = less.prems
  show ?case
  proof (cases "i < length seeds")
    case False
    then show ?thesis
      by (subst expand_normal_seeds.simps, subst expand_faces_per_seed.simps) simp
  next
    case True
    show ?thesis
    proof (cases "centroidNormalNeighbours cfg (seeds ! i) (mean cns) points nv octree")
      case None
      then show ?thesis using True inv
        by (subst expand_normal_seeds.simps, subst expand_faces_per_seed.simps) (simp add: Let_def)
    next
      case (Some cn)
      show ?thesis
      proof (cases "MIN_FACE_POINTS cfg \<le> fst cn")
        case False
        have m: "unclassified points + (length seeds - (i + 1))
                 < unclassified points + (length seeds - i)"
          using True by simp
        from less.hyps[OF m inv] show ?thesis using True Some False inv
          by (subst expand_normal_seeds.simps, subst expand_faces_per_seed.simps)
             (simp add: Let_def)
      next
        case core: True
        obtain points' seeds' where
          a: "absorb (int k) (snd cn) (points, seeds, cps) = (points', seeds', cps @ snd cn)"
          using absorb_clusterPoints[of "int k" "snd cn" points seeds cps] by blast
        have an: "absorb_normals (int k) nv (snd cn) (points, seeds, cps, cns)
                    = (points', seeds', cps @ snd cn, cns @ map (\<lambda>i. nv ! i) (snd cn))"
          by (simp add: absorb_normals_absorb a)
        have "int k \<noteq> cUnclassified" by (simp add: cUnclassified_def)
        from absorb_measure[OF centroidNormalNeighbours_range[OF Some] this a]
        have "unclassified points' + length seeds' = unclassified points + length seeds"
          "length seeds \<le> length seeds'" by simp_all
        then have m: "unclassified points' + (length seeds' - (i + 1))
                      < unclassified points + (length seeds - i)"
          using True by simp
        have inv': "cns @ map (\<lambda>i. nv ! i) (snd cn) = map (\<lambda>j. nv ! j) (cps @ snd cn)"
          using inv by simp
        from less.hyps[OF m inv'] show ?thesis using True Some core inv an a
          by (subst expand_normal_seeds.simps, subst expand_faces_per_seed.simps)
             (simp add: Let_def)
      qed
    qed
  qed
qed

text \<open>
  Claim C5, as amended.  During the expansion the mean normal is recomputed once for every
  dequeued seed, before the neighbourhood of that seed is searched, as the mean over the
  normals of all points that are in the cluster at that moment; every neighbour of the
  seed is tested against that one value.  The list \<open>clusterNormals\<close> that the code extends
  with every absorbed point is the list of the normals of \<open>clusterPoints\<close>, so the loop of
  the code computes what \<open>expand_faces_per_seed\<close> computes.
\<close>

theorem expand_normal_seeds_mean_per_seed:
  "expand_normal_seeds cfg octree nv k i (points, seeds, cps, map (\<lambda>j. nv ! j) cps)
     = expand_faces_per_seed cfg octree nv k i (points, seeds, cps)"
  by (rule expand_normal_seeds_per_seed) simp

lemma sqrt_49_81: "sqrt (49 / 81) = 7 / 9"
  by (rule real_sqrt_unique) (simp_all add: power2_eq_square)

lemma sqrt_25_81: "sqrt (25 / 81) = 5 / 9"
  by (rule real_sqrt_unique) (simp_all add: power2_eq_square)

lemma face_octree:
  "Octree_of (octree_config face_config) face_points
     = Leaf (mkPoint 1 (1 / 2) 0) 1 [0, 1, 2, 3]"
  by (simp add: octree_config_def Octree_of_def face_config_def face_points_def BBox_of_def
      bbox_step_def mkPoint_def setX_def setY_def setZ_def point_minus_def Rep_posreal_1
      build_node.simps upt_rec)

lemma face_means:
  "mean (map (\<lambda>j. face_normals ! j) [0, 1]) = mkPoint 0 0 1"
  "mean (map (\<lambda>j. face_normals ! j) [0, 1, 2]) = mkPoint (8 / 21) (4 / 21) (19 / 21)"
  by (simp_all add: mean_def face_normals_def mkPoint_def module_def Point0_def sqrt_49_81)

lemma arccos_facts:
  "arccos (1 / 9) < arccos (- (61 / 189))" "0 < arccos (- (61 / 189))"
proof -
  show "arccos (1 / 9) < arccos (- (61 / 189))"
    by (subst arccos_less_mono) simp_all
  show "0 < arccos (- (61 / 189))"
    using arccos_lt_bounded[of "- (61 / 189)"] by simp
qed

text \<open>
  Claim C5 as stated says that the mean is recomputed after every absorption.  On the four
  points the cluster is \<open>{0, 1}\<close> when seed 1 is dequeued.  One search, against the mean of
  the normals of points 0 and 1, yields both candidates 2 and 3, and both are absorbed.
  Against the mean over points 0, 1 and 2, the mean of the cluster once point 2 is in it,
  the normal of point 3 fails the test.
\<close>

theorem expansion_tests_against_stale_mean:
  "expandNormalCluster face_config 0 0 face_points face_normals
     (Octree_of (octree_config face_config) face_points)
     = Some ((True, [0, 1, 2, 3]), map2 setClusterID [0, 0, 0, 0] face_points) \<and>
   centroidNormalNeighbours face_config 1 (mean (map (\<lambda>j. face_normals ! j) [0, 1]))
     (map2 setClusterID [0, 0, cUnclassified, cUnclassified] face_points) face_normals
     (Octree_of (octree_config face_config) face_points)
     = Some (4, [2, 3]) \<and>
   \<not> normal_accepts face_config (face_normals ! 1)
       (mean (map (\<lambda>j. face_normals ! j) [0, 1, 2])) (face_normals ! 3)"
proof -
  have a: "expandNormalCluster face_config 0 0 face_points face_normals
     (Octree_of (octree_config face_config) face_points)
     = Some ((True, [0, 1, 2, 3]), map2 setClusterID [0, 0, 0, 0] face_points)"
    unfolding face_octree using arccos_ninth
    by (simp add: face_config_def face_points_def face_normals_def normals_eval dbscan_eval
        sqrt_25_81 sqrt_49_81)
  have b: "centroidNormalNeighbours face_config 1 (mean (map (\<lambda>j. face_normals ! j) [0, 1]))
     (map2 setClusterID [0, 0, cUnclassified, cUnclassified] face_points) face_normals
     (Octree_of (octree_config face_config) face_points)
     = Some (4, [2, 3])"
    unfolding face_octree face_means using arccos_ninth
    by (simp add: face_config_def face_points_def face_normals_def normals_eval dbscan_eval)
  have c: "\<not> normal_accepts face_config (face_normals ! 1)
       (mean (map (\<lambda>j. face_normals ! j) [0, 1, 2])) (face_normals ! 3)"
    unfolding face_means using arccos_facts
    by (simp add: face_config_def face_normals_def normal_accepts_def vectorialAngle_def
        angle_le_def module_def scalarProduct_def point_neq_def point_eq_exact Point0_def
        mkPoint_def)
  from a b c show ?thesis by (intro conjI)
qed

end
